theory Spec2Isabelle
  imports Complex_Main
begin

section \<open>Python values and builtins used by seller.py and market.py\<close>

text \<open>
  A feed record (one row of the supplier's spreadsheet, a Python dict) holds dynamically
  typed cells. The embedding covers the cell values \<open>None\<close> (what \<open>dict.get\<close> returns for
  a missing key), Python integers and Python strings. A Python \<open>str\<close> is a \<open>string\<close>;
  a character outside ASCII is written as its UTF-8 bytes, none of which is an ASCII digit
  or an ASCII period.
\<close>

datatype pyval = PNone | PInt int | PStr string

datatype error = TypeError | ValueError | AttributeError

definition is_digit :: "char \<Rightarrow> bool" where
  "is_digit c = (48 \<le> (of_char c :: nat) \<and> (of_char c :: nat) \<le> 57)"

definition digit_val :: "char \<Rightarrow> nat" where
  "digit_val c = (of_char c :: nat) - 48"

definition digit_char :: "nat \<Rightarrow> char" where
  "digit_char d = char_of (48 + d)"

text \<open>\<open>str(n)\<close> for a Python integer: the decimal digits, with a minus sign below zero.\<close>

function str_nat :: "nat \<Rightarrow> string" where
  "str_nat n = (if n < 10 then [digit_char n] else str_nat (n div 10) @ [digit_char (n mod 10)])"
  by pat_completeness auto
termination
  by (relation "measure id") auto

declare str_nat.simps [simp del]

definition str_int :: "int \<Rightarrow> string" where
  "str_int i = (if i < 0 then CHR ''-'' # str_nat (nat (- i)) else str_nat (nat i))"

fun py_str :: "pyval \<Rightarrow> string" where
  "py_str PNone = ''None''"
| "py_str (PInt i) = str_int i"
| "py_str (PStr s) = s"

text \<open>
  A Python \<open>str\<close> is a sequence of code points; \<open>utf8_decode\<close> reads them back from
  the UTF-8 bytes that stand for it here. Bytes that are no UTF-8 (a stray continuation
  byte, a cut or overlong sequence, a value beyond U+10FFFF) stand for no Python text;
  they decode to \<open>no_character\<close>, which is neither a digit nor white space.
\<close>

definition utf8_len :: "nat \<Rightarrow> nat" where
  "utf8_len n = (if n < 224 then 1 else if n < 240 then 2 else 3)"

definition utf8_lead :: "nat \<Rightarrow> nat" where
  "utf8_lead n = (if n < 224 then n - 192 else if n < 240 then n - 224 else n - 240)"

definition utf8_min :: "nat \<Rightarrow> nat" where
  "utf8_min n = (if n < 224 then 128 else if n < 240 then 2048 else 65536)"

definition utf8_tail :: "nat \<Rightarrow> nat \<Rightarrow> string \<Rightarrow> nat option" where
  "utf8_tail k acc bs =
     (if length (take k bs) = k
         \<and> list_all (\<lambda>b. 128 \<le> (of_char b :: nat) \<and> (of_char b :: nat) < 192) (take k bs)
      then Some (foldl (\<lambda>a b. a * 64 + ((of_char b :: nat) - 128)) acc (take k bs))
      else None)"

definition no_character :: nat where
  "no_character = 1114112"

fun utf8_decode :: "string \<Rightarrow> nat list" where
  "utf8_decode [] = []"
| "utf8_decode (b # bs) =
     (if (of_char b :: nat) < 128 then of_char b # utf8_decode bs
      else if (of_char b :: nat) < 192 \<or> 248 \<le> (of_char b :: nat)
        then no_character # utf8_decode bs
      else
        (case utf8_tail (utf8_len (of_char b)) (utf8_lead (of_char b)) bs of
           None \<Rightarrow> no_character # utf8_decode bs
         | Some c \<Rightarrow>
             (if utf8_min (of_char b) \<le> c \<and> c < no_character
              then c # utf8_decode (drop (utf8_len (of_char b)) bs)
              else no_character # utf8_decode bs)))"

text \<open>
  \<open>int(s)\<close> for a string, base 10. White space is stripped at both ends, one sign may
  lead, and the rest is a run of decimal digits in which single underscores may separate
  digits; anything else raises \<open>ValueError\<close>. White space is the ASCII white space of
  C and the non-ASCII white space of Unicode; a decimal digit is any character of the
  Unicode category Nd, whose ranges of ten start at the code points of \<open>decimal_zeros\<close>
  (Unicode 14.0, as in CPython 3.11). The limit that recent CPython releases put on the
  number of digits is a run-time setting and is not part of the model.
\<close>

definition white_space :: "nat list" where
  "white_space =
     [9, 10, 11, 12, 13, 32, 133, 160, 5760, 8192, 8193, 8194, 8195, 8196, 8197, 8198, 8199,
      8200, 8201, 8202, 8232, 8233, 8239, 8287, 12288]"

definition cp_space :: "nat \<Rightarrow> bool" where
  "cp_space c = (c \<in> set white_space)"

definition decimal_zeros :: "nat list" where
  "decimal_zeros =
     [48, 1632, 1776, 1984, 2406, 2534, 2662, 2790, 2918, 3046, 3174, 3302, 3430, 3558, 3664,
      3792, 3872, 4160, 4240, 6112, 6160, 6470, 6608, 6784, 6800, 6992, 7088, 7232, 7248,
      42528, 43216, 43264, 43472, 43504, 43600, 44016, 65296, 66720, 68912, 69734, 69872,
      69942, 70096, 70384, 70736, 70864, 71248, 71360, 71472, 71904, 72016, 72784, 73040,
      73120, 92768, 92864, 93008, 120782, 120792, 120802, 120812, 120822, 123200, 123632,
      125264, 130032]"

definition cp_digit :: "nat \<Rightarrow> nat option" where
  "cp_digit c = map_option (\<lambda>z. c - z) (find (\<lambda>z. z \<le> c \<and> c < z + 10) decimal_zeros)"

fun parse_body :: "nat \<Rightarrow> nat list \<Rightarrow> nat option" where
  "parse_body acc [] = Some acc"
| "parse_body acc [c] = (case cp_digit c of Some d \<Rightarrow> Some (acc * 10 + d) | None \<Rightarrow> None)"
| "parse_body acc (c # c' # cs) =
     (case cp_digit c of
        Some d \<Rightarrow> parse_body (acc * 10 + d) (c' # cs)
      | None \<Rightarrow>
          (if c = 95 then
             (case cp_digit c' of Some d \<Rightarrow> parse_body (acc * 10 + d) cs | None \<Rightarrow> None)
           else None))"

fun py_digits :: "nat list \<Rightarrow> nat option" where
  "py_digits [] = None"
| "py_digits (c # cs) = (case cp_digit c of Some d \<Rightarrow> parse_body d cs | None \<Rightarrow> None)"

definition strip :: "nat list \<Rightarrow> nat list" where
  "strip s = rev (dropWhile cp_space (rev (dropWhile cp_space s)))"

definition signed_parse :: "nat list \<Rightarrow> error + int" where
  "signed_parse m =
     (case m of
        [] \<Rightarrow> Inl ValueError
      | c # cs \<Rightarrow>
          (if c = 45 then
             (case py_digits cs of None \<Rightarrow> Inl ValueError | Some n \<Rightarrow> Inr (- int n))
           else if c = 43 then
             (case py_digits cs of None \<Rightarrow> Inl ValueError | Some n \<Rightarrow> Inr (int n))
           else
             (case py_digits (c # cs) of None \<Rightarrow> Inl ValueError | Some n \<Rightarrow> Inr (int n))))"

definition int_of_cps :: "nat list \<Rightarrow> error + int" where
  "int_of_cps s = signed_parse (strip s)"

definition int_of_str :: "string \<Rightarrow> error + int" where
  "int_of_str s = int_of_cps (utf8_decode s)"

fun py_int :: "pyval \<Rightarrow> error + int" where
  "py_int PNone = Inl TypeError"
| "py_int (PInt i) = Inr i"
| "py_int (PStr s) = int_of_str s"

text \<open>
  \<open>range(start, stop, step)\<close> as the list of its elements; a zero step raises
  \<open>ValueError\<close>. The length is computed as CPython does.
\<close>

definition range_len :: "int \<Rightarrow> int \<Rightarrow> int \<Rightarrow> nat" where
  "range_len start stop step =
     (if 0 < step \<and> start < stop then nat ((stop - start - 1) div step + 1)
      else if step < 0 \<and> stop < start then nat ((start - stop - 1) div (- step) + 1)
      else 0)"

definition py_range :: "int \<Rightarrow> int \<Rightarrow> int \<Rightarrow> error + int list" where
  "py_range start stop step =
     (if step = 0 then Inl ValueError
      else Inr (map (\<lambda>k. start + int k * step) [0 ..< range_len start stop step]))"

text \<open>The slice \<open>xs[i:j]\<close>: negative bounds count from the end, and both are clamped.\<close>

definition slice_bound :: "nat \<Rightarrow> int \<Rightarrow> nat" where
  "slice_bound n k = (if k < 0 then nat (max 0 (k + int n)) else min (nat k) n)"

definition py_slice :: "'a list \<Rightarrow> int \<Rightarrow> int \<Rightarrow> 'a list" where
  "py_slice xs i j =
     (let a = slice_bound (length xs) i; b = slice_bound (length xs) j
      in take (b - a) (drop a xs))"

section \<open>The feed record\<close>

text \<open>
  One element of \<open>watch_remnants\<close>. The dict keys are Cyrillic in the source; the fields
  carry their transliterations: \<open>Kod\<close> (code), \<open>Kolichestvo\<close> (quantity), \<open>Tsena\<close>
  (price). A field holds what \<open>watch.get(key)\<close> returns.
\<close>

record watch =
  Kod :: pyval
  Kolichestvo :: pyval
  Tsena :: pyval

section \<open>seller.py\<close>

text \<open>
  Lines 209 to 215 of \<open>create_stocks\<close> (the same lines are 214 to 220 of market.py):
  the stock count of one matched record.
\<close>

definition classify :: "pyval \<Rightarrow> error + int" where
  "classify q =
     (let count = py_str q
      in if count = ''>10'' then Inr 100
         else if count = ''1'' then Inr 0
         else py_int q)"

record seller_stock =
  offer_id :: string
  stock :: int

text \<open>
  The first loop of \<open>create_stocks\<close>, with the two lists it mutates passed along:
  \<open>stocks\<close> grows at its end, \<open>offer_ids\<close> loses the first occurrence of a matched code.
\<close>

fun seller_stocks_loop ::
    "watch list \<Rightarrow> seller_stock list \<Rightarrow> string list \<Rightarrow> error + (seller_stock list \<times> string list)" where
  "seller_stocks_loop [] stocks offer_ids = Inr (stocks, offer_ids)"
| "seller_stocks_loop (w # ws) stocks offer_ids =
     (if py_str (Kod w) \<in> set offer_ids then
        (case classify (Kolichestvo w) of
           Inl e \<Rightarrow> Inl e
         | Inr n \<Rightarrow>
             seller_stocks_loop ws
               (stocks @ [\<lparr>offer_id = py_str (Kod w), stock = n\<rparr>])
               (remove1 (py_str (Kod w)) offer_ids))
      else seller_stocks_loop ws stocks offer_ids)"

text \<open>
  \<open>create_stocks\<close> of seller.py. The result is the returned list together with the
  caller's \<open>offer_ids\<close> list as the call leaves it.
\<close>

definition seller_create_stocks ::
    "watch list \<Rightarrow> string list \<Rightarrow> error + (seller_stock list \<times> string list)" where
  "seller_create_stocks watch_remnants offer_ids =
     (case seller_stocks_loop watch_remnants [] offer_ids of
        Inl e \<Rightarrow> Inl e
      | Inr (stocks, ids) \<Rightarrow> Inr (stocks @ map (\<lambda>i. \<lparr>offer_id = i, stock = 0\<rparr>) ids, ids))"

text \<open>\<open>price_conversion\<close>: \<open>re.sub("[^0-9]", "", price.split(".")[0])\<close>.\<close>

definition split_first :: "string \<Rightarrow> string" where
  "split_first s = takeWhile (\<lambda>c. c \<noteq> CHR ''.'') s"

definition sub_non_digits :: "string \<Rightarrow> string" where
  "sub_non_digits s = filter is_digit s"

fun price_conversion :: "pyval \<Rightarrow> error + string" where
  "price_conversion (PStr s) = Inr (sub_non_digits (split_first s))"
| "price_conversion _ = Inl AttributeError"

record seller_price =
  auto_action_enabled :: string
  currency_code :: string
  price_offer_id :: string
  old_price :: string
  price :: string

fun seller_prices_loop ::
    "watch list \<Rightarrow> seller_price list \<Rightarrow> string list \<Rightarrow> error + seller_price list" where
  "seller_prices_loop [] prices offer_ids = Inr prices"
| "seller_prices_loop (w # ws) prices offer_ids =
     (if py_str (Kod w) \<in> set offer_ids then
        (case price_conversion (Tsena w) of
           Inl e \<Rightarrow> Inl e
         | Inr p \<Rightarrow>
             seller_prices_loop ws
               (prices @ [\<lparr>auto_action_enabled = ''UNKNOWN'', currency_code = ''RUB'',
                           price_offer_id = py_str (Kod w), old_price = ''0'', price = p\<rparr>])
               offer_ids)
      else seller_prices_loop ws prices offer_ids)"

definition seller_create_prices :: "watch list \<Rightarrow> string list \<Rightarrow> error + seller_price list" where
  "seller_create_prices watch_remnants offer_ids = seller_prices_loop watch_remnants [] offer_ids"

text \<open>
  \<open>divide\<close>, a generator: the batches it yields when run to its end, or the error its
  first step raises.
\<close>

definition divide :: "'a list \<Rightarrow> int \<Rightarrow> error + 'a list list" where
  "divide lst n =
     (case py_range 0 (int (length lst)) n of
        Inl e \<Rightarrow> Inl e
      | Inr is \<Rightarrow> Inr (map (\<lambda>i. py_slice lst i (i + n)) is))"

text \<open>
  The two list computations of \<open>main\<close> in seller.py, lines 366 and 370, on the same
  \<open>offer_ids\<close> object; the network calls between them are left out.
\<close>

definition seller_main_lists ::
    "watch list \<Rightarrow> string list \<Rightarrow> error + (seller_stock list \<times> seller_price list)" where
  "seller_main_lists watch_remnants offer_ids =
     (case seller_create_stocks watch_remnants offer_ids of
        Inl e \<Rightarrow> Inl e
      | Inr (stocks, ids) \<Rightarrow>
          (case seller_create_prices watch_remnants ids of
             Inl e \<Rightarrow> Inl e
           | Inr prices \<Rightarrow> Inr (stocks, prices)))"

section \<open>market.py\<close>

record market_item =
  count :: int
  item_type :: string
  updatedAt :: string

record market_stock =
  sku :: string
  warehouseId :: string
  items :: "market_item list"

text \<open>
  The clock: \<open>clock t\<close> is the text that
  \<open>str(datetime.datetime.utcnow().replace(microsecond=0).isoformat() + "Z")\<close> gives at the
  \<open>t\<close>-th reading; every reading moves on to the next.
\<close>

definition utcnow_iso :: "(nat \<Rightarrow> string) \<Rightarrow> nat \<Rightarrow> string \<times> nat" where
  "utcnow_iso clock t = (clock t, Suc t)"

fun market_stocks_loop ::
    "watch list \<Rightarrow> market_stock list \<Rightarrow> string list \<Rightarrow> string \<Rightarrow> string
      \<Rightarrow> error + (market_stock list \<times> string list)" where
  "market_stocks_loop [] stocks offer_ids warehouse_id date = Inr (stocks, offer_ids)"
| "market_stocks_loop (w # ws) stocks offer_ids warehouse_id date =
     (if py_str (Kod w) \<in> set offer_ids then
        (case classify (Kolichestvo w) of
           Inl e \<Rightarrow> Inl e
         | Inr n \<Rightarrow>
             market_stocks_loop ws
               (stocks @ [\<lparr>sku = py_str (Kod w), warehouseId = warehouse_id,
                           items = [\<lparr>count = n, item_type = ''FIT'', updatedAt = date\<rparr>]\<rparr>])
               (remove1 (py_str (Kod w)) offer_ids) warehouse_id date)
      else market_stocks_loop ws stocks offer_ids warehouse_id date)"

text \<open>
  \<open>create_stocks\<close> of market.py: the returned list, the caller's \<open>offer_ids\<close> as the call
  leaves it, and the clock position after the call.
\<close>

definition market_create_stocks ::
    "watch list \<Rightarrow> string list \<Rightarrow> string \<Rightarrow> (nat \<Rightarrow> string) \<Rightarrow> nat
      \<Rightarrow> error + (market_stock list \<times> string list \<times> nat)" where
  "market_create_stocks watch_remnants offer_ids warehouse_id clock t =
     (case utcnow_iso clock t of
        (date, t') \<Rightarrow>
          (case market_stocks_loop watch_remnants [] offer_ids warehouse_id date of
             Inl e \<Rightarrow> Inl e
           | Inr (stocks, ids) \<Rightarrow>
               Inr (stocks @
                    map (\<lambda>i. \<lparr>sku = i, warehouseId = warehouse_id,
                              items = [\<lparr>count = 0, item_type = ''FIT'', updatedAt = date\<rparr>]\<rparr>) ids,
                    ids, t')))"

record market_price_body =
  price_value :: int
  currencyId :: string

record market_price =
  price_id :: string
  price_body :: market_price_body

text \<open>Line 294 of market.py: \<open>int(price_conversion(watch.get(...)))\<close>.\<close>

definition market_price_value :: "pyval \<Rightarrow> error + int" where
  "market_price_value v =
     (case price_conversion v of Inl e \<Rightarrow> Inl e | Inr p \<Rightarrow> int_of_str p)"

fun market_prices_loop ::
    "watch list \<Rightarrow> market_price list \<Rightarrow> string list \<Rightarrow> error + market_price list" where
  "market_prices_loop [] prices offer_ids = Inr prices"
| "market_prices_loop (w # ws) prices offer_ids =
     (if py_str (Kod w) \<in> set offer_ids then
        (case market_price_value (Tsena w) of
           Inl e \<Rightarrow> Inl e
         | Inr v \<Rightarrow>
             market_prices_loop ws
               (prices @ [\<lparr>price_id = py_str (Kod w),
                           price_body = \<lparr>price_value = v, currencyId = ''RUR''\<rparr>\<rparr>])
               offer_ids)
      else market_prices_loop ws prices offer_ids)"

definition market_create_prices :: "watch list \<Rightarrow> string list \<Rightarrow> error + market_price list" where
  "market_create_prices watch_remnants offer_ids = market_prices_loop watch_remnants [] offer_ids"

section \<open>The specification's vocabulary\<close>

text \<open>
  The price rule in the specification's words: cut the text at its first period, drop
  every character that is not one of the ten digits, read what is left in base 10. No
  digit left means no value.
\<close>

fun truncate_at_dot :: "string \<Rightarrow> string" where
  "truncate_at_dot [] = []"
| "truncate_at_dot (c # cs) = (if c = CHR ''.'' then [] else c # truncate_at_dot cs)"

fun strip_non_digits :: "string \<Rightarrow> string" where
  "strip_non_digits [] = []"
| "strip_non_digits (c # cs) =
     (if c \<in> set ''0123456789'' then c # strip_non_digits cs else strip_non_digits cs)"

definition parse_decimal :: "string \<Rightarrow> nat" where
  "parse_decimal ds = foldl (\<lambda>a c. 10 * a + digit_val c) 0 ds"

definition spec_normalize :: "string \<Rightarrow> int option" where
  "spec_normalize p =
     (let ds = strip_non_digits (truncate_at_dot p)
      in if ds = [] then None else Some (int (parse_decimal ds)))"

text \<open>
  The integer texts in the specification's words: a base-10 integer is a run of decimal
  digits, read from left to right, in which a single underscore may stand between two
  digits; it may carry one leading sign and white space around it. \<open>int_text t v\<close>
  says that the code points \<open>t\<close> are such a text and \<open>v\<close> is its value.
\<close>

inductive digits_text :: "nat list \<Rightarrow> nat \<Rightarrow> bool" where
  digit: "cp_digit c = Some d \<Longrightarrow> digits_text [c] d"
| digit_more: "digits_text s n \<Longrightarrow> cp_digit c = Some d \<Longrightarrow> digits_text (s @ [c]) (10 * n + d)"
| underscore_more:
    "digits_text s n \<Longrightarrow> cp_digit c = Some d \<Longrightarrow> digits_text (s @ [95, c]) (10 * n + d)"

definition signed_text :: "nat list \<Rightarrow> int \<Rightarrow> bool" where
  "signed_text m v \<longleftrightarrow>
     (\<exists>n. digits_text m n \<and> v = int n)
     \<or> (\<exists>s n. m = 43 # s \<and> digits_text s n \<and> v = int n)
     \<or> (\<exists>s n. m = 45 # s \<and> digits_text s n \<and> v = - int n)"

definition int_text :: "nat list \<Rightarrow> int \<Rightarrow> bool" where
  "int_text t v \<longleftrightarrow>
     (\<exists>l m r. t = l @ m @ r \<and> list_all cp_space l \<and> list_all cp_space r \<and> signed_text m v)"

text \<open>
  The reconciliation in the specification's words. The code of a record is its
  stringified \<open>Kod\<close>; the matched records are the first occurrences of the codes that
  the catalog holds, in feed order; the unmatched identifiers are those of the catalog
  that no record carries, in catalog order.
\<close>

definition code :: "watch \<Rightarrow> string" where
  "code w = py_str (Kod w)"

definition feed_codes :: "watch list \<Rightarrow> string list" where
  "feed_codes feed = map code feed"

fun first_occurrences :: "string list \<Rightarrow> watch list \<Rightarrow> watch list" where
  "first_occurrences seen [] = []"
| "first_occurrences seen (w # ws) =
     (if code w \<in> set seen then first_occurrences seen ws
      else w # first_occurrences (code w # seen) ws)"

definition matched_records :: "string list \<Rightarrow> watch list \<Rightarrow> watch list" where
  "matched_records C feed = filter (\<lambda>w. code w \<in> set C) (first_occurrences [] feed)"

definition unmatched_ids :: "string list \<Rightarrow> watch list \<Rightarrow> string list" where
  "unmatched_ids C feed = filter (\<lambda>i. i \<notin> set (feed_codes feed)) C"

text \<open>The payload of market.py that carries a stock count of seller.py.\<close>

definition to_market :: "string \<Rightarrow> string \<Rightarrow> seller_stock \<Rightarrow> market_stock" where
  "to_market warehouse_id date s =
     \<lparr>sku = offer_id s, warehouseId = warehouse_id,
      items = [\<lparr>count = stock s, item_type = ''FIT'', updatedAt = date\<rparr>]\<rparr>"

text \<open>
  The keys of the dict literal that \<open>create_stocks\<close> of seller.py appends (lines 216
  and 220), with their values.
\<close>

definition seller_stock_fields :: "seller_stock \<Rightarrow> (string \<times> pyval) list" where
  "seller_stock_fields s = [(''offer_id'', PStr (offer_id s)), (''stock'', PInt (stock s))]"

text \<open>Two quantity texts outside ASCII: a digit followed by U+00A0, and the digit U+0663.\<close>

definition three_nbsp :: string where
  "three_nbsp = ''3'' @ [CHR 0xC2, CHR 0xA0]"

definition arabic_three :: string where
  "arabic_three = [CHR 0xD9, CHR 0xA3]"

text \<open>The price text of the two examples in the docstring of \<open>price_conversion\<close>.\<close>

definition rub :: string where
  "rub = [CHR 0xD1, CHR 0x80, CHR 0xD1, CHR 0x83, CHR 0xD0, CHR 0xB1, CHR ''.'']"

definition price_with_period :: string where
  "price_with_period = ''5'' @ [CHR 0x27] @ ''990.00 '' @ rub"

definition price_with_comma :: string where
  "price_with_comma = ''5'' @ [CHR 0x27] @ ''990,00 '' @ rub"

text \<open>The stock update the reconciliation is expected to give a matched record.\<close>

definition expected_stock :: "watch \<Rightarrow> seller_stock" where
  "expected_stock w = \<lparr>offer_id = code w, stock = projr (classify (Kolichestvo w))\<rparr>"

text \<open>The price updates of the two modules, by identifier and price.\<close>

definition seller_price_of :: "string \<Rightarrow> string \<Rightarrow> seller_price" where
  "seller_price_of i p =
     \<lparr>auto_action_enabled = ''UNKNOWN'', currency_code = ''RUB'', price_offer_id = i,
      old_price = ''0'', price = p\<rparr>"

definition market_price_of :: "string \<Rightarrow> int \<Rightarrow> market_price" where
  "market_price_of i v = \<lparr>price_id = i, price_body = \<lparr>price_value = v, currencyId = ''RUR''\<rparr>\<rparr>"

section \<open>Sample inputs\<close>

text \<open>
  The feed of the specification's end-to-end scenario, a record of code \<open>a\<close> with a
  given quantity and price, and a clock whose first reading differs from the later ones.
\<close>

definition feed_example :: "watch list" where
  "feed_example =
     [\<lparr>Kod = PStr ''48852'', Kolichestvo = PStr ''3'',
       Tsena = PStr (''24'' @ [CHR 0x27] @ ''570.00 '' @ rub)\<rparr>]"

definition watch_a :: "string \<Rightarrow> string \<Rightarrow> watch" where
  "watch_a q p = \<lparr>Kod = PStr ''a'', Kolichestvo = PStr q, Tsena = PStr p\<rparr>"

fun clock_example :: "nat \<Rightarrow> string" where
  "clock_example 0 = ''T0''"
| "clock_example (Suc k) = ''T1''"

section \<open>Reading integers\<close>

lemma white_space_no_digit: "list_all (\<lambda>c. cp_digit c = None) white_space"
  by (simp add: white_space_def cp_digit_def decimal_zeros_def)

lemma cp_digit_not_space: "cp_digit c = Some d \<Longrightarrow> \<not> cp_space c"
  using white_space_no_digit by (auto simp: cp_space_def list_all_iff)

lemma cp_digit_signs: "cp_digit 45 = None" "cp_digit 43 = None" "cp_digit 95 = None"
  by (simp_all add: cp_digit_def decimal_zeros_def)

lemma signs_not_space: "\<not> cp_space 45" "\<not> cp_space 43"
  by (simp_all add: cp_space_def white_space_def)

lemma cp_digit_ascii: "48 \<le> c \<Longrightarrow> c \<le> 57 \<Longrightarrow> cp_digit c = Some (c - 48)"
  by (simp add: cp_digit_def decimal_zeros_def)

lemma parse_body_sound:
  "digits_text s acc \<Longrightarrow> parse_body acc cs = Some v \<Longrightarrow> digits_text (s @ cs) v"
proof (induction acc cs arbitrary: s rule: parse_body.induct)
  case (1 acc)
  then show ?case by simp
next
  case (2 acc c)
  then obtain d where d: "cp_digit c = Some d" and v: "v = acc * 10 + d"
    by (auto split: option.splits)
  from digits_text.digit_more [OF "2.prems"(1) d] v show ?case by (simp add: mult.commute)
next
  case (3 acc c c' cs)
  show ?case
  proof (cases "cp_digit c")
    case (Some d)
    with "3.prems" have run: "parse_body (acc * 10 + d) (c' # cs) = Some v" by simp
    have "digits_text (s @ [c]) (acc * 10 + d)"
      using digits_text.digit_more [OF "3.prems"(1) Some] by (simp add: mult.commute)
    from "3.IH"(2) [OF Some this run] show ?thesis by simp
  next
    case None
    with "3.prems" obtain d where c: "c = 95" and d: "cp_digit c' = Some d"
      and run: "parse_body (acc * 10 + d) cs = Some v"
      by (auto split: if_splits option.splits)
    have "digits_text (s @ [95, c']) (acc * 10 + d)"
      using digits_text.underscore_more [OF "3.prems"(1) d] by (simp add: mult.commute)
    from "3.IH"(1) [OF None c d this run] c show ?thesis by simp
  qed
qed

lemma parse_body_append:
  "parse_body acc xs = Some a \<Longrightarrow> parse_body acc (xs @ ys) = parse_body a ys"
proof (induction acc xs rule: parse_body.induct)
  case (1 acc)
  then show ?case by simp
next
  case (2 acc c)
  then show ?case by (cases ys) (auto split: option.splits)
next
  case (3 acc c c' cs)
  then show ?case by (auto split: option.splits if_splits)
qed

lemma digits_text_ends:
  "digits_text s n \<Longrightarrow> s \<noteq> [] \<and> cp_digit (hd s) \<noteq> None \<and> cp_digit (last s) \<noteq> None"
  by (induction rule: digits_text.induct) (auto simp: hd_append)

lemma py_digits_complete: "digits_text s n \<Longrightarrow> py_digits s = Some n"
proof (induction rule: digits_text.induct)
  case (digit c d)
  then show ?case by simp
next
  case (digit_more s n c d)
  from digits_text_ends [OF digit_more.hyps(1)] obtain h t where s: "s = h # t" by (cases s) auto
  with digit_more.IH obtain dh where h: "cp_digit h = Some dh" and t: "parse_body dh t = Some n"
    by (auto split: option.splits)
  have "parse_body dh (t @ [c]) = parse_body n [c]" by (rule parse_body_append [OF t])
  with s h digit_more.hyps(2) show ?case by (simp add: mult.commute)
next
  case (underscore_more s n c d)
  from digits_text_ends [OF underscore_more.hyps(1)] obtain h t where s: "s = h # t"
    by (cases s) auto
  with underscore_more.IH obtain dh where h: "cp_digit h = Some dh"
    and t: "parse_body dh t = Some n"
    by (auto split: option.splits)
  have "parse_body dh (t @ [95, c]) = parse_body n [95, c]" by (rule parse_body_append [OF t])
  with s h underscore_more.hyps(2) show ?case by (simp add: mult.commute cp_digit_signs)
qed

lemma py_digits_sound: "py_digits s = Some n \<Longrightarrow> digits_text s n"
proof (cases s)
  case Nil
  assume "py_digits s = Some n"
  with Nil show ?thesis by simp
next
  case (Cons h t)
  assume "py_digits s = Some n"
  with Cons obtain d where d: "cp_digit h = Some d" and t: "parse_body d t = Some n"
    by (auto split: option.splits)
  from parse_body_sound [OF digits_text.digit [OF d] t] Cons show ?thesis by simp
qed

lemma py_digits_iff: "py_digits s = Some n \<longleftrightarrow> digits_text s n"
  using py_digits_sound py_digits_complete by blast

lemma rev_split_while: "rev x = rev (dropWhile P x) @ rev (takeWhile P x)"
  by (simp only: rev_append [symmetric] takeWhile_dropWhile_id)

lemma strip_decomp:
  "\<exists>l r. t = l @ strip t @ r \<and> list_all cp_space l \<and> list_all cp_space r"
proof -
  let ?l = "takeWhile cp_space t"
  let ?u = "dropWhile cp_space t"
  let ?r = "rev (takeWhile cp_space (rev ?u))"
  have "rev (rev ?u) = strip t @ ?r"
    unfolding strip_def by (rule rev_split_while)
  then have u: "?u = strip t @ ?r" by (simp only: rev_rev_ident)
  have "t = ?l @ ?u" by simp
  then have "t = ?l @ strip t @ ?r" by (simp only: u [symmetric])
  moreover have "list_all cp_space ?l" by (simp add: list_all_iff) (meson set_takeWhileD)
  moreover have "list_all cp_space ?r" by (simp add: list_all_iff) (meson set_takeWhileD)
  ultimately show ?thesis by blast
qed

lemma dropWhile_keeps: "m \<noteq> [] \<Longrightarrow> \<not> P (hd m) \<Longrightarrow> dropWhile P (m @ r) = m @ r"
  by (cases m) simp_all

lemma strip_core:
  assumes "list_all cp_space l" and "list_all cp_space r"
    and "m \<noteq> []" and "\<not> cp_space (hd m)" and "\<not> cp_space (last m)"
  shows "strip (l @ m @ r) = m"
proof -
  have 1: "dropWhile cp_space (l @ m @ r) = m @ r"
    using assms(1,3,4) by (simp add: dropWhile_append2 list_all_iff dropWhile_keeps)
  have "dropWhile cp_space (rev r @ rev m) = dropWhile cp_space (rev m)"
    by (rule dropWhile_append2) (use assms(2) in \<open>simp add: list_all_iff\<close>)
  also have "\<dots> = rev m"
    using dropWhile_keeps [of "rev m" cp_space "[]"] assms(3,5) by (simp add: hd_rev)
  finally show ?thesis by (simp add: strip_def 1)
qed

lemma signed_parse_sound:
  assumes "signed_parse m = Inr v"
  shows "signed_text m v"
proof (cases m)
  case Nil
  with assms show ?thesis by (simp add: signed_parse_def)
next
  case (Cons c cs)
  consider (minus) "c = 45" | (plus) "c = 43" | (plain) "c \<noteq> 45" "c \<noteq> 43" by blast
  then show ?thesis
  proof cases
    case minus
    with assms Cons obtain n where "py_digits cs = Some n" "v = - int n"
      by (auto simp: signed_parse_def split: option.splits)
    with minus Cons show ?thesis by (auto simp: signed_text_def py_digits_iff)
  next
    case plus
    with assms Cons obtain n where "py_digits cs = Some n" "v = int n"
      by (auto simp: signed_parse_def split: option.splits)
    with plus Cons show ?thesis by (auto simp: signed_text_def py_digits_iff)
  next
    case plain
    with assms Cons obtain n where "py_digits (c # cs) = Some n" "v = int n"
      by (auto simp: signed_parse_def simp del: py_digits.simps split: option.splits)
    then have "digits_text m n" "v = int n" using Cons by (simp_all only: py_digits_iff)
    then show ?thesis unfolding signed_text_def by blast
  qed
qed

lemma signed_parse_complete:
  assumes "signed_text m v"
  shows "signed_parse m = Inr v"
proof -
  from assms consider
      (plain) n where "digits_text m n" "v = int n"
    | (plus) s n where "m = 43 # s" "digits_text s n" "v = int n"
    | (minus) s n where "m = 45 # s" "digits_text s n" "v = - int n"
    by (auto simp: signed_text_def)
  then show ?thesis
  proof cases
    case plain
    from digits_text_ends [OF plain(1)] obtain h t where m: "m = h # t" and h: "cp_digit h \<noteq> None"
      by (cases m) auto
    from h have "h \<noteq> 45" "h \<noteq> 43" using cp_digit_signs by auto
    moreover have "py_digits (h # t) = Some n" using plain(1) m by (simp only: py_digits_iff)
    ultimately show ?thesis using plain(2) m by (simp add: signed_parse_def del: py_digits.simps)
  next
    case plus
    then show ?thesis by (simp add: signed_parse_def py_digits_complete)
  next
    case minus
    then show ?thesis by (simp add: signed_parse_def py_digits_complete)
  qed
qed

lemma signed_text_ends:
  assumes "signed_text m v"
  shows "m \<noteq> [] \<and> \<not> cp_space (hd m) \<and> \<not> cp_space (last m)"
proof -
  have d: "s \<noteq> [] \<and> \<not> cp_space (hd s) \<and> \<not> cp_space (last s)" if "digits_text s n" for s n
    using digits_text_ends [OF that] cp_digit_not_space by auto
  from assms consider
      (plain) n where "digits_text m n"
    | (plus) s n where "m = 43 # s" "digits_text s n"
    | (minus) s n where "m = 45 # s" "digits_text s n"
    by (auto simp: signed_text_def)
  then show ?thesis
  proof cases
    case plain
    then show ?thesis by (rule d)
  next
    case plus
    with d [OF plus(2)] show ?thesis by (simp add: signs_not_space)
  next
    case minus
    with d [OF minus(2)] show ?thesis by (simp add: signs_not_space)
  qed
qed

lemma int_of_cps_signed: "int_of_cps t = signed_parse (strip t)"
  by (simp add: int_of_cps_def)

lemma int_of_cps_iff: "int_of_cps t = Inr v \<longleftrightarrow> int_text t v"
proof
  assume "int_of_cps t = Inr v"
  then have "signed_text (strip t) v" unfolding int_of_cps_signed by (rule signed_parse_sound)
  with strip_decomp [of t] show "int_text t v" unfolding int_text_def by blast
next
  assume "int_text t v"
  then obtain l m r where t: "t = l @ m @ r" and l: "list_all cp_space l"
    and r: "list_all cp_space r" and m: "signed_text m v"
    unfolding int_text_def by blast
  from signed_text_ends [OF m] have "strip t = m" unfolding t by (intro strip_core l r) simp_all
  with signed_parse_complete [OF m] show "int_of_cps t = Inr v" by (simp add: int_of_cps_signed)
qed

lemma int_of_cps_error: "int_of_cps t = Inl e \<Longrightarrow> e = ValueError"
  by (auto simp: int_of_cps_def signed_parse_def split: list.splits if_splits option.splits)

lemma int_of_str_iff: "int_of_str t = Inr v \<longleftrightarrow> int_text (utf8_decode t) v"
  by (simp add: int_of_str_def int_of_cps_iff)

lemma int_of_str_error: "int_of_str t = Inl e \<Longrightarrow> e = ValueError"
  unfolding int_of_str_def by (rule int_of_cps_error)

lemma int_of_str_fails_iff: "int_of_str t = Inl ValueError \<longleftrightarrow> \<not> (\<exists>v. int_text (utf8_decode t) v)"
proof (cases "int_of_str t")
  case (Inl e)
  with int_of_str_error [OF Inl] int_of_str_iff [of t] show ?thesis by auto
next
  case (Inr v)
  with int_of_str_iff [of t v] show ?thesis by auto
qed

lemma utf8_decode_ascii:
  "\<forall>c \<in> set s. (of_char c :: nat) < 128 \<Longrightarrow> utf8_decode s = map of_char s"
  by (induction s) simp_all

lemma cp_digit_of_digit: "is_digit c \<Longrightarrow> cp_digit (of_char c) = Some (digit_val c)"
  by (simp add: is_digit_def digit_val_def cp_digit_ascii)

lemma digits_text_of_digits:
  assumes "ds \<noteq> []" and "\<forall>c \<in> set ds. is_digit c"
  shows "digits_text (map of_char ds) (parse_decimal ds)"
  using assms
proof (induction ds rule: rev_nonempty_induct)
  case (single c)
  then have "cp_digit (of_char c) = Some (digit_val c)" by (simp add: cp_digit_of_digit)
  from digits_text.digit [OF this] show ?case by (simp add: parse_decimal_def)
next
  case (snoc c ds)
  then have d: "cp_digit (of_char c) = Some (digit_val c)" by (simp add: cp_digit_of_digit)
  from snoc have "digits_text (map of_char ds) (parse_decimal ds)" by simp
  from digits_text.digit_more [OF this d] show ?case by (simp add: parse_decimal_def)
qed

lemma int_of_str_digits:
  assumes "\<forall>c \<in> set ds. is_digit c"
  shows "int_of_str ds = (if ds = [] then Inl ValueError else Inr (int (parse_decimal ds)))"
proof (cases "ds = []")
  case True
  then show ?thesis by (simp add: int_of_str_def int_of_cps_def strip_def signed_parse_def)
next
  case False
  have "\<forall>c \<in> set ds. (of_char c :: nat) < 128" using assms by (auto simp: is_digit_def)
  then have u: "utf8_decode ds = map of_char ds" by (rule utf8_decode_ascii)
  have "signed_text (map of_char ds) (int (parse_decimal ds))"
    unfolding signed_text_def using digits_text_of_digits [OF False assms] by blast
  then have "int_text ([] @ map of_char ds @ []) (int (parse_decimal ds))"
    unfolding int_text_def by (intro exI conjI) (rule refl, simp_all)
  then have "int_of_str ds = Inr (int (parse_decimal ds))"
    by (simp add: int_of_str_iff u)
  with False show ?thesis by simp
qed

lemmas int_eval = int_of_str_def int_of_cps_def signed_parse_def strip_def cp_space_def
  white_space_def cp_digit_def decimal_zeros_def utf8_tail_def utf8_len_def utf8_lead_def
  utf8_min_def no_character_def

lemma int_of_str_gt10: "int_of_str ''>10'' = Inl ValueError"
  by (simp add: int_eval)

lemma int_of_str_one: "int_of_str ''1'' = Inr 1"
  by (simp add: int_eval)

lemma int_of_str_three: "int_of_str ''3'' = Inr 3"
  by (simp add: int_eval)

lemma int_of_str_zero: "int_of_str ''0'' = Inr 0"
  by (simp add: int_eval)

lemma int_of_str_hundred: "int_of_str ''100'' = Inr 100"
  by (simp add: int_eval)

lemma int_of_str_minus_three: "int_of_str ''-3'' = Inr (- 3)"
  by (simp add: int_eval)

lemma int_of_str_abc: "int_of_str ''abc'' = Inl ValueError"
  by (simp add: int_eval)

lemma int_of_str_three_nbsp: "int_of_str three_nbsp = Inr 3"
  by (simp add: three_nbsp_def int_eval)

lemma int_of_str_arabic_three: "int_of_str arabic_three = Inr 3"
  by (simp add: arabic_three_def int_eval)

section \<open>The price normalizer\<close>

lemma sub_non_digits_spec: "sub_non_digits (split_first p) = strip_non_digits (truncate_at_dot p)"
proof (induction p)
  case Nil
  show ?case by (simp add: sub_non_digits_def split_first_def)
next
  case (Cons c cs)
  have d: "is_digit c \<longleftrightarrow> c \<in> set ''0123456789''"
  proof
    assume "is_digit c"
    then have "(of_char c :: nat) = of_char CHR ''0'' \<or> (of_char c :: nat) = of_char CHR ''1''
        \<or> (of_char c :: nat) = of_char CHR ''2'' \<or> (of_char c :: nat) = of_char CHR ''3''
        \<or> (of_char c :: nat) = of_char CHR ''4'' \<or> (of_char c :: nat) = of_char CHR ''5''
        \<or> (of_char c :: nat) = of_char CHR ''6'' \<or> (of_char c :: nat) = of_char CHR ''7''
        \<or> (of_char c :: nat) = of_char CHR ''8'' \<or> (of_char c :: nat) = of_char CHR ''9''"
      unfolding is_digit_def by simp arith
    then have "c = CHR ''0'' \<or> c = CHR ''1'' \<or> c = CHR ''2'' \<or> c = CHR ''3'' \<or> c = CHR ''4''
        \<or> c = CHR ''5'' \<or> c = CHR ''6'' \<or> c = CHR ''7'' \<or> c = CHR ''8'' \<or> c = CHR ''9''"
      by (simp only: of_char_eq_iff)
    then show "c \<in> set ''0123456789''" by auto
  next
    assume "c \<in> set ''0123456789''"
    then show "is_digit c" by (auto simp: is_digit_def)
  qed
  from Cons show ?case
    by (simp add: sub_non_digits_def split_first_def d)
qed

lemma digits_strip_non_digits: "\<forall>c \<in> set (sub_non_digits s). is_digit c"
  by (simp add: sub_non_digits_def)

lemma market_price_value_str:
  "market_price_value (PStr p) =
     (if sub_non_digits (split_first p) = [] then Inl ValueError
      else Inr (int (parse_decimal (sub_non_digits (split_first p)))))"
  using int_of_str_digits [OF digits_strip_non_digits, of "split_first p"]
  by (simp add: market_price_value_def)

text \<open>
  Claim C3. For every price text \<open>p\<close>, \<open>price_conversion\<close> returns the digits of the part
  of \<open>p\<close> before its first period, and the integer that market.py reads from them is the
  specification's value: the text cut at the first period, stripped of every non-digit,
  read in base 10. The documented examples give 5990 with a period and 599000 with a
  comma.
\<close>

theorem price_conversion_spec:
  "price_conversion (PStr p) = Inr (strip_non_digits (truncate_at_dot p))
   \<and> market_price_value (PStr p) = (case spec_normalize p of None \<Rightarrow> Inl ValueError | Some v \<Rightarrow> Inr v)
   \<and> price_conversion (PStr price_with_period) = Inr ''5990''
   \<and> market_price_value (PStr price_with_period) = Inr 5990
   \<and> price_conversion (PStr price_with_comma) = Inr ''599000''
   \<and> market_price_value (PStr price_with_comma) = Inr 599000"
proof -
  have a: "price_conversion (PStr p) = Inr (strip_non_digits (truncate_at_dot p))"
    by (simp add: sub_non_digits_spec)
  have b: "market_price_value (PStr p) = (case spec_normalize p of None \<Rightarrow> Inl ValueError | Some v \<Rightarrow> Inr v)"
    by (simp add: market_price_value_str spec_normalize_def sub_non_digits_spec Let_def)
  have c: "sub_non_digits (split_first price_with_period) = ''5990''"
    by (simp add: price_with_period_def rub_def sub_non_digits_def split_first_def is_digit_def)
  have d: "sub_non_digits (split_first price_with_comma) = ''599000''"
    by (simp add: price_with_comma_def rub_def sub_non_digits_def split_first_def is_digit_def)
  have e: "parse_decimal ''5990'' = 5990" "parse_decimal ''599000'' = 599000"
    by (simp_all add: parse_decimal_def digit_val_def)
  show ?thesis
    using a b by (simp add: market_price_value_str c d e)
qed

text \<open>
  The same at the price text \<open>12.50\<close>.
\<close>

theorem price_conversion_spec_witness:
  "price_conversion (PStr ''12.50'') = Inr ''12'' \<and> market_price_value (PStr ''12.50'') = Inr 12
   \<and> spec_normalize ''12.50'' = Some 12"
proof -
  have "spec_normalize ''12.50'' = Some 12"
    by (simp add: spec_normalize_def parse_decimal_def digit_val_def)
  then show ?thesis using price_conversion_spec [of "''12.50''"] by simp
qed

section \<open>The quantity classifier\<close>

lemma classify_PStr:
  "classify (PStr t) = (if t = ''>10'' then Inr 100 else if t = ''1'' then Inr 0 else int_of_str t)"
  by (simp add: classify_def)

text \<open>
  Claim C2, as stated, fails in its two equivalences: the token \<open>0\<close> is classified 0
  though it is not the literal \<open>1\<close>, and the token \<open>100\<close> is classified 100 though it
  is not the literal \<open>>10\<close>.
\<close>

theorem classify_zero_counterexample:
  "classify (PStr ''0'') = Inr 0 \<and> ''0'' \<noteq> ''1''
   \<and> classify (PStr ''100'') = Inr 100 \<and> ''100'' \<noteq> ''>10''"
  by (simp add: classify_def int_of_str_zero int_of_str_hundred)

text \<open>
  Claim C2, amended. For every quantity token \<open>t\<close>: the classifier returns 100 if \<open>t\<close>
  is the literal \<open>>10\<close> and 0 if \<open>t\<close> is the literal \<open>1\<close>. For any other token it
  returns \<open>v\<close> exactly when \<open>t\<close> is a base-10 integer text of value \<open>v\<close> (decimal
  digits with single underscores allowed between them, an optional sign before, white
  space allowed around). So it returns 100 exactly for \<open>>10\<close> and the integer texts of
  value 100, returns 0 exactly for \<open>1\<close> and the integer texts of value 0, and raises
  exactly when \<open>t\<close> is neither literal and no integer text; the error is a
  \<open>ValueError\<close>.
\<close>

theorem classify_token:
  "(t = ''>10'' \<longrightarrow> classify (PStr t) = Inr 100)
   \<and> (t = ''1'' \<longrightarrow> classify (PStr t) = Inr 0)
   \<and> (t \<noteq> ''>10'' \<and> t \<noteq> ''1'' \<longrightarrow>
        (\<forall>v. classify (PStr t) = Inr v \<longleftrightarrow> int_text (utf8_decode t) v))
   \<and> (classify (PStr t) = Inr 100 \<longleftrightarrow> t = ''>10'' \<or> int_text (utf8_decode t) 100)
   \<and> (classify (PStr t) = Inr 0 \<longleftrightarrow> t = ''1'' \<or> int_text (utf8_decode t) 0)
   \<and> (classify (PStr t) = Inl ValueError \<longleftrightarrow>
        t \<noteq> ''>10'' \<and> t \<noteq> ''1'' \<and> \<not> (\<exists>v. int_text (utf8_decode t) v))
   \<and> (\<forall>e. classify (PStr t) = Inl e \<longrightarrow> e = ValueError)"
proof -
  have gt: "\<not> int_text (utf8_decode ''>10'') v" for v
  proof
    assume "int_text (utf8_decode ''>10'') v"
    then have "int_of_str ''>10'' = Inr v" by (rule iffD2 [OF int_of_str_iff])
    with int_of_str_gt10 show False by simp
  qed
  have one: "int_text (utf8_decode ''1'') v \<longleftrightarrow> v = 1" for v
  proof
    assume "int_text (utf8_decode ''1'') v"
    then have "int_of_str ''1'' = Inr v" by (rule iffD2 [OF int_of_str_iff])
    with int_of_str_one show "v = 1" by simp
  next
    assume "v = 1"
    with int_of_str_one have "int_of_str ''1'' = Inr v" by simp
    then show "int_text (utf8_decode ''1'') v" by (rule iffD1 [OF int_of_str_iff])
  qed
  have a: "t = ''>10'' \<longrightarrow> classify (PStr t) = Inr 100"
    by (simp add: classify_PStr)
  have b: "t = ''1'' \<longrightarrow> classify (PStr t) = Inr 0"
    by (simp add: classify_PStr)
  have c: "t \<noteq> ''>10'' \<and> t \<noteq> ''1'' \<longrightarrow>
        (\<forall>v. classify (PStr t) = Inr v \<longleftrightarrow> int_text (utf8_decode t) v)"
    by (simp add: classify_PStr int_of_str_iff)
  have d: "classify (PStr t) = Inr 100 \<longleftrightarrow> t = ''>10'' \<or> int_text (utf8_decode t) 100"
    using gt one by (auto simp: classify_PStr int_of_str_iff)
  have e: "classify (PStr t) = Inr 0 \<longleftrightarrow> t = ''1'' \<or> int_text (utf8_decode t) 0"
    using gt one by (auto simp: classify_PStr int_of_str_iff)
  have f: "classify (PStr t) = Inl ValueError \<longleftrightarrow>
        t \<noteq> ''>10'' \<and> t \<noteq> ''1'' \<and> \<not> (\<exists>v. int_text (utf8_decode t) v)"
    by (simp add: classify_PStr int_of_str_fails_iff)
  have g: "\<forall>e. classify (PStr t) = Inl e \<longrightarrow> e = ValueError"
    using int_of_str_error by (auto simp: classify_PStr split: if_splits)
  from a b c d e f g show ?thesis by blast
qed

text \<open>
  The classifier on the two literals, a digit, a word, and the two quantity texts
  outside ASCII.
\<close>

theorem classify_token_witness:
  "classify (PStr ''>10'') = Inr 100 \<and> classify (PStr ''1'') = Inr 0
   \<and> classify (PStr ''3'') = Inr 3 \<and> int_text (utf8_decode ''3'') 3
   \<and> classify (PStr ''abc'') = Inl ValueError \<and> \<not> (\<exists>v. int_text (utf8_decode ''abc'') v)
   \<and> classify (PStr three_nbsp) = Inr 3 \<and> int_text (utf8_decode three_nbsp) 3
   \<and> classify (PStr arabic_three) = Inr 3 \<and> int_text (utf8_decode arabic_three) 3"
proof -
  have n: "three_nbsp \<noteq> ''>10''" "three_nbsp \<noteq> ''1''" "arabic_three \<noteq> ''>10''"
    "arabic_three \<noteq> ''1''"
    by (simp_all add: three_nbsp_def arabic_three_def)
  have 1: "int_text (utf8_decode ''3'') 3"
    by (rule iffD1 [OF int_of_str_iff int_of_str_three])
  have 2: "\<not> (\<exists>v. int_text (utf8_decode ''abc'') v)"
    by (rule iffD1 [OF int_of_str_fails_iff int_of_str_abc])
  have 3: "int_text (utf8_decode three_nbsp) 3"
    by (rule iffD1 [OF int_of_str_iff int_of_str_three_nbsp])
  have 4: "int_text (utf8_decode arabic_three) 3"
    by (rule iffD1 [OF int_of_str_iff int_of_str_arabic_three])
  from classify_token [of "''>10''"] have a: "classify (PStr ''>10'') = Inr 100" by simp
  from classify_token [of "''1''"] have b: "classify (PStr ''1'') = Inr 0" by simp
  from classify_token [of "''3''"] 1 have c: "classify (PStr ''3'') = Inr 3" by simp
  from classify_token [of "''abc''"] 2 have d: "classify (PStr ''abc'') = Inl ValueError" by simp
  from classify_token [of three_nbsp] 3 n have e: "classify (PStr three_nbsp) = Inr 3" by simp
  from classify_token [of arabic_three] 4 n have f: "classify (PStr arabic_three) = Inr 3"
    by simp
  from a b c d e f 1 2 3 4 show ?thesis by (intro conjI)
qed

lemma classify_cases:
  assumes "classify q = Inr n"
  shows "n = 100 \<or> n = 0 \<or> py_int q = Inr n"
  using assms by (auto simp: classify_def Let_def split: if_splits)

lemma classify_negative:
  assumes "n < 0"
  shows "classify q = Inr n \<longleftrightarrow> py_int q = Inr n"
proof
  assume "classify q = Inr n"
  from classify_cases [OF this] assms show "py_int q = Inr n" by auto
next
  assume r: "py_int q = Inr n"
  have "py_str q \<noteq> ''>10'' \<and> py_str q \<noteq> ''1''"
  proof (cases q)
    case PNone
    with r show ?thesis by simp
  next
    case (PInt i)
    with r assms have "i < 0" by simp
    then show ?thesis using PInt by (simp add: str_int_def)
  next
    case (PStr t)
    with r assms int_of_str_gt10 int_of_str_one show ?thesis by auto
  qed
  with r show "classify q = Inr n" by (simp add: classify_def)
qed

section \<open>Batches: divide\<close>

lemma take_min_length: "take (min n (length xs)) xs = take n xs"
  by (simp add: min_def)

lemma py_slice_nonneg:
  assumes "0 \<le> i" and "i \<le> j"
  shows "py_slice xs i j = take (nat (j - i)) (drop (nat i) xs)"
proof (cases "nat i \<le> length xs")
  case True
  have "min (nat j) (length xs) - nat i = min (nat (j - i)) (length (drop (nat i) xs))"
    using assms True by (simp add: min_def nat_diff_distrib) linarith
  then have "take (min (nat j) (length xs) - nat i) (drop (nat i) xs) = take (nat (j - i)) (drop (nat i) xs)"
    by (simp only: take_min_length)
  then show ?thesis
    using assms True by (simp add: py_slice_def slice_bound_def Let_def min_absorb1)
next
  case False
  then show ?thesis
    using assms by (simp add: py_slice_def slice_bound_def Let_def)
qed

lemma concat_chunks:
  "concat (map (\<lambda>k. take n (drop (k * n) xs)) [0 ..< m]) = take (m * n) xs"
proof (induction m)
  case 0
  show ?case by simp
next
  case (Suc m)
  have "take (m * n) xs @ take n (drop (m * n) xs) = take (m * n + n) xs"
    by (simp add: take_add)
  with Suc show ?case by (simp add: add.commute)
qed

lemma range_len_pos:
  assumes "0 < n"
  shows "range_len 0 (int l) n = (l + nat n - 1) div nat n"
proof (cases "l = 0")
  case True
  with assms show ?thesis by (simp add: range_len_def)
next
  case False
  define p where "p = nat n"
  have p: "n = int p" "0 < p" using assms by (simp_all add: p_def)
  have a: "int l - 1 = int (l - 1)" using False by (simp add: of_nat_diff)
  have b: "(int l - 1) div int p + 1 = int ((l - 1) div p + 1)"
    unfolding a by (simp add: zdiv_int)
  have c0: "l + p - 1 = (l - 1) + p" using False by arith
  have c: "(l + p - 1) div p = (l - 1) div p + 1"
    unfolding c0 using p(2) by (rule_tac div_add_self2) simp
  have "range_len 0 (int l) (int p) = nat ((int l - 1) div int p + 1)"
    using False p by (simp add: range_len_def)
  also have "\<dots> = (l - 1) div p + 1" unfolding b by (rule nat_int)
  finally have "range_len 0 (int l) (int p) = (l + p - 1) div p" by (simp only: c)
  then show ?thesis using assms by (simp add: p_def)
qed

lemma divide_pos:
  assumes "0 < n"
  shows "divide lst n = Inr (map (\<lambda>k. take (nat n) (drop (k * nat n) lst)) [0 ..< (length lst + nat n - 1) div nat n])"
proof -
  have "py_slice lst (int k * n) (int k * n + n) = take (nat n) (drop (k * nat n) lst)" for k
    using assms py_slice_nonneg [of "int k * n" "int k * n + n" lst]
    by (simp add: nat_mult_distrib)
  then show ?thesis
    using assms by (simp add: divide_def py_range_def range_len_pos)
qed

lemma chunks_bounds:
  assumes "0 < p"
  shows "l \<le> ((l + p - 1) div p) * p" and "((l + p - 1) div p) * p < l + (p::nat)"
proof -
  have d: "(l + p - 1) = ((l + p - 1) div p) * p + (l + p - 1) mod p" by simp
  have m: "(l + p - 1) mod p < p" using assms by simp
  show "l \<le> ((l + p - 1) div p) * p" using d m assms by linarith
  show "((l + p - 1) div p) * p < l + p" using d assms by linarith
qed

lemma ceil_nat:
  assumes "0 < n"
  shows "int ((l + nat n - 1) div nat n) = \<lceil>real l / real_of_int n\<rceil>"
proof -
  define p where "p = nat n"
  have p: "n = int p" "0 < p" using assms by (simp_all add: p_def)
  define m where "m = (l + p - 1) div p"
  have 1: "l \<le> m * p" and 2: "m * p < l + p"
    unfolding m_def using chunks_bounds [OF p(2)] by auto
  have "real l \<le> real m * real p" using 1 by (metis of_nat_le_iff of_nat_mult)
  then have u: "real l / real p \<le> real m" using p by (simp add: pos_divide_le_eq)
  have "real m * real p < real l + real p" using 2 by (metis of_nat_less_iff of_nat_mult of_nat_add)
  then have "(real m - 1) * real p < real l" by (simp add: algebra_simps)
  then have lo: "real m - 1 < real l / real p" using p by (simp add: pos_less_divide_eq)
  have "\<lceil>real l / real p\<rceil> = int m"
    by (rule ceiling_unique) (use lo u in simp_all)
  then show ?thesis using assms by (simp add: m_def p_def)
qed

text \<open>
  Claim C6. For a positive batch size \<open>n\<close>, \<open>divide\<close> returns batches whose concatenation
  is the input list, each of length at most \<open>n\<close>, and there are
  \<open>ceil(len(L) / n)\<close> of them; the empty list gives no batch.
\<close>

theorem divide_partition:
  assumes "0 < n"
  shows "\<exists>bs. divide L n = Inr bs \<and> concat bs = L \<and> (\<forall>b \<in> set bs. int (length b) \<le> n)
           \<and> int (length bs) = \<lceil>real (length L) / real_of_int n\<rceil>
           \<and> (L = [] \<longrightarrow> bs = [])"
proof -
  define p where "p = nat n"
  define m where "m = (length L + p - 1) div p"
  define bs where "bs = map (\<lambda>k. take p (drop (k * p) L)) [0 ..< m]"
  have p: "0 < p" using assms by (simp add: p_def)
  have d: "divide L n = Inr bs"
    using divide_pos [OF assms, of L] by (simp add: bs_def m_def p_def)
  have "length L \<le> m * p" unfolding m_def by (rule chunks_bounds(1) [OF p])
  then have c: "concat bs = L" by (simp add: bs_def concat_chunks)
  have l: "\<forall>b \<in> set bs. int (length b) \<le> n"
    using assms by (auto simp: bs_def p_def)
  have k: "int (length bs) = \<lceil>real (length L) / real_of_int n\<rceil>"
    using ceil_nat [OF assms, of "length L"] by (simp add: bs_def m_def p_def)
  have e: "L = [] \<longrightarrow> bs = []"
    using p by (simp add: bs_def m_def)
  from d c l k e show ?thesis by blast
qed

theorem divide_partition_witness:
  "(0::int) < 2 \<and> divide [1, 2, 3, 4, 5 :: nat] 2 = Inr [[1, 2], [3, 4], [5]]
     \<and> int (length [[1, 2], [3, 4], [5 :: nat]]) = \<lceil>real (length [1, 2, 3, 4, 5 :: nat]) / real_of_int 2\<rceil>"
proof -
  have h: "(0::int) < 2" by simp
  have e: "divide [1, 2, 3, 4, 5 :: nat] 2 = Inr [[1, 2], [3, 4], [5]]"
    by code_simp
  from divide_partition [OF h, of "[1, 2, 3, 4, 5 :: nat]"] e h show ?thesis by auto
qed

text \<open>
  Claim C7, as stated, fails: a negative batch size raises nothing. The range
  \<open>range(0, len(lst), n)\<close> is empty for \<open>n < 0\<close>, so the generator ends without a batch.
\<close>

theorem divide_negative_counterexample:
  "divide [1, 2, 3 :: nat] (- 1) = Inr []"
  by (simp add: divide_def py_range_def range_len_def)

text \<open>
  Claim C7, amended. A batch size of zero raises \<open>ValueError\<close> (the zero step of
  \<open>range\<close>); a negative batch size yields no batch at all, whatever the list.
\<close>

theorem divide_nonpositive:
  "(n = 0 \<longrightarrow> divide L n = Inl ValueError) \<and> (n < 0 \<longrightarrow> divide L n = Inr [])"
proof -
  have zero: "py_range 0 (int (length L)) 0 = Inl ValueError"
    by (simp add: py_range_def)
  have neg: "py_range 0 (int (length L)) n = Inr []" if "n < 0"
    using that by (simp add: py_range_def range_len_def)
  from zero neg show ?thesis by (auto simp: divide_def)
qed

theorem divide_nonpositive_witness:
  "divide [1, 2, 3 :: nat] 0 = Inl ValueError \<and> divide [1, 2, 3 :: nat] (- 2) = Inr []"
  using divide_nonpositive [of 0 "[1, 2, 3 :: nat]"] divide_nonpositive [of "- 2" "[1, 2, 3 :: nat]"]
  by simp

section \<open>Reconciliation: stock updates\<close>

lemma first_occurrences_unseen:
  "w \<in> set (first_occurrences seen ws) \<Longrightarrow> code w \<notin> set seen"
proof (induction ws arbitrary: seen)
  case Nil
  then show ?case by simp
next
  case (Cons a ws)
  show ?case
  proof (cases "code a \<in> set seen")
    case True
    with Cons show ?thesis by simp
  next
    case False
    from Cons.prems False have "w = a \<or> w \<in> set (first_occurrences (code a # seen) ws)"
      by simp
    then show ?thesis
    proof
      assume "w = a"
      with False show ?thesis by simp
    next
      assume "w \<in> set (first_occurrences (code a # seen) ws)"
      from Cons.IH [OF this] show ?thesis by simp
    qed
  qed
qed

lemma first_occurrences_codes:
  "set (map code (first_occurrences seen ws)) = set (feed_codes ws) - set seen"
  by (induction ws arbitrary: seen) (auto simp: feed_codes_def)

lemma first_occurrences_distinct:
  "distinct (map code (first_occurrences seen ws))"
proof (induction ws arbitrary: seen)
  case Nil
  show ?case by simp
next
  case (Cons w ws)
  have "code w \<notin> code ` set (first_occurrences (code w # seen) ws)"
  proof
    assume "code w \<in> code ` set (first_occurrences (code w # seen) ws)"
    then obtain x where x: "x \<in> set (first_occurrences (code w # seen) ws)" "code x = code w"
      by auto
    from first_occurrences_unseen [OF x(1)] x(2) show False by simp
  qed
  with Cons show ?case by simp
qed

lemma seller_stocks_loop_Inr:
  assumes "seller_stocks_loop ws acc ids = Inr (st, ids')"
    and "distinct ids" and "set seen \<inter> set ids = {}"
  shows "st = acc @ map expected_stock (filter (\<lambda>w. code w \<in> set ids) (first_occurrences seen ws))
         \<and> ids' = filter (\<lambda>i. i \<notin> set (feed_codes ws)) ids
         \<and> (\<forall>w \<in> set (filter (\<lambda>w. code w \<in> set ids) (first_occurrences seen ws)).
               \<exists>n. classify (Kolichestvo w) = Inr n)"
  using assms
proof (induction ws arbitrary: acc ids seen)
  case Nil
  then show ?case by (simp add: feed_codes_def)
next
  case (Cons w ws)
  let ?c = "code w"
  show ?case
  proof (cases "?c \<in> set ids")
    case True
    then obtain n where n: "classify (Kolichestvo w) = Inr n"
      using Cons.prems(1) by (cases "classify (Kolichestvo w)") (simp_all add: code_def)
    let ?ids = "remove1 ?c ids"
    have run: "seller_stocks_loop ws (acc @ [\<lparr>offer_id = ?c, stock = n\<rparr>]) ?ids = Inr (st, ids')"
      using Cons.prems(1) True n by (simp add: code_def)
    have d: "distinct ?ids" using Cons.prems(2) by simp
    have s: "set ?ids = set ids - {?c}" using Cons.prems(2) by simp
    have unseen: "?c \<notin> set seen" using True Cons.prems(3) by auto
    have dj: "set (?c # seen) \<inter> set ?ids = {}" using Cons.prems(3) s by auto
    note IH = Cons.IH [OF run d dj]
    have same: "filter (\<lambda>x. code x \<in> set ?ids) (first_occurrences (?c # seen) ws)
                = filter (\<lambda>x. code x \<in> set ids) (first_occurrences (?c # seen) ws)"
      using first_occurrences_unseen [of _ "?c # seen" ws] by (intro filter_cong) (auto simp: s)
    have e: "expected_stock w = \<lparr>offer_id = ?c, stock = n\<rparr>"
      by (simp add: expected_stock_def n)
    have r: "filter (\<lambda>i. i \<notin> set (feed_codes ws)) ?ids
             = filter (\<lambda>i. i \<notin> set (feed_codes (w # ws))) ids"
      using Cons.prems(2) by (simp add: distinct_remove1_removeAll removeAll_filter_not_eq feed_codes_def conj_commute eq_commute)
    show ?thesis
      using IH True unseen n by (simp add: same e r)
  next
    case False
    have run: "seller_stocks_loop ws acc ids = Inr (st, ids')"
      using Cons.prems(1) False by (simp add: code_def)
    have r: "filter (\<lambda>i. i \<notin> set (feed_codes ws)) ids
             = filter (\<lambda>i. i \<notin> set (feed_codes (w # ws))) ids"
      using False by (intro filter_cong) (auto simp: feed_codes_def)
    show ?thesis
    proof (cases "?c \<in> set seen")
      case True
      from Cons.IH [OF run Cons.prems(2) Cons.prems(3)] True r show ?thesis by simp
    next
      case unseen: False
      have dj: "set (?c # seen) \<inter> set ids = {}" using Cons.prems(3) False by auto
      from Cons.IH [OF run Cons.prems(2) dj] unseen False r show ?thesis by simp
    qed
  qed
qed

lemma matched_codes:
  "distinct (map code (matched_records C feed))"
  "set (map code (matched_records C feed)) = set (feed_codes feed) \<inter> set C"
proof -
  show "distinct (map code (matched_records C feed))"
    unfolding matched_records_def by (rule distinct_map_filter) (rule first_occurrences_distinct)
  have "set (map code (matched_records C feed))
        = {c \<in> set (map code (first_occurrences [] feed)). c \<in> set C}"
    unfolding matched_records_def by auto
  then show "set (map code (matched_records C feed)) = set (feed_codes feed) \<inter> set C"
    unfolding first_occurrences_codes by auto
qed

lemma seller_create_stocks_Inr:
  assumes "distinct C" and "seller_create_stocks feed C = Inr (st, ids')"
  shows "st = map expected_stock (matched_records C feed)
              @ map (\<lambda>i. \<lparr>offer_id = i, stock = 0\<rparr>) (unmatched_ids C feed)"
    and "ids' = unmatched_ids C feed"
    and "\<forall>w \<in> set (matched_records C feed). \<exists>n. classify (Kolichestvo w) = Inr n"
proof -
  obtain st0 where run: "seller_stocks_loop feed [] C = Inr (st0, ids')"
    and st: "st = st0 @ map (\<lambda>i. \<lparr>offer_id = i, stock = 0\<rparr>) ids'"
    using assms(2) by (auto simp: seller_create_stocks_def split: sum.splits)
  note L = seller_stocks_loop_Inr [OF run assms(1), of "[]"]
  show "ids' = unmatched_ids C feed" using L by (simp add: unmatched_ids_def)
  then show "st = map expected_stock (matched_records C feed)
              @ map (\<lambda>i. \<lparr>offer_id = i, stock = 0\<rparr>) (unmatched_ids C feed)"
    using L st by (simp add: matched_records_def)
  show "\<forall>w \<in> set (matched_records C feed). \<exists>n. classify (Kolichestvo w) = Inr n"
    using L by (simp add: matched_records_def)
qed

text \<open>
  The reconciliation returns whenever every feed record of a catalog code has a quantity
  that the classifier accepts.
\<close>

lemma seller_stocks_loop_returns:
  assumes "\<forall>w \<in> set ws. code w \<in> set C \<longrightarrow> (\<exists>n. classify (Kolichestvo w) = Inr n)"
    and "set ids \<subseteq> set C"
  shows "\<exists>r. seller_stocks_loop ws acc ids = Inr r"
  using assms
proof (induction ws arbitrary: acc ids)
  case Nil
  show ?case by simp
next
  case (Cons w ws)
  have rest: "\<forall>w \<in> set ws. code w \<in> set C \<longrightarrow> (\<exists>n. classify (Kolichestvo w) = Inr n)"
    using Cons.prems(1) by simp
  show ?case
  proof (cases "py_str (Kod w) \<in> set ids")
    case False
    with Cons.IH [OF rest Cons.prems(2)] show ?thesis by simp
  next
    case True
    then have "code w \<in> set C" using Cons.prems(2) by (auto simp: code_def)
    then obtain n where n: "classify (Kolichestvo w) = Inr n" using Cons.prems(1) by auto
    have "set (remove1 (py_str (Kod w)) ids) \<subseteq> set C"
      using Cons.prems(2) set_remove1_subset by fastforce
    from Cons.IH [OF rest this] True n show ?thesis by simp
  qed
qed

lemma seller_create_stocks_returns:
  assumes "\<forall>w \<in> set feed. code w \<in> set C \<longrightarrow> (\<exists>n. classify (Kolichestvo w) = Inr n)"
  shows "\<exists>st ids'. seller_create_stocks feed C = Inr (st, ids')"
proof -
  from seller_stocks_loop_returns [OF assms subset_refl, of "[]"]
  obtain st0 ids' where "seller_stocks_loop feed [] C = Inr (st0, ids')" by force
  then show ?thesis by (simp add: seller_create_stocks_def)
qed

lemma reconciled_ids:
  assumes "distinct C" and "ids = map code (matched_records C feed) @ unmatched_ids C feed"
  shows "distinct ids" and "set ids = set C" and "length ids = length C"
proof -
  have u: "distinct (unmatched_ids C feed)" using assms(1) by (simp add: unmatched_ids_def)
  have dj: "set (map code (matched_records C feed)) \<inter> set (unmatched_ids C feed) = {}"
    unfolding matched_codes(2) by (auto simp: unmatched_ids_def)
  show d: "distinct ids"
    unfolding assms(2) using matched_codes(1) [of C feed] u dj by simp
  show s: "set ids = set C"
    unfolding assms(2) set_append matched_codes(2) by (auto simp: unmatched_ids_def)
  show "length ids = length C"
    using d s assms(1) by (metis distinct_card)
qed

lemma market_stocks_loop_seller:
  "market_stocks_loop ws (map (to_market wh d) acc) ids wh d
   = (case seller_stocks_loop ws acc ids of
        Inl e \<Rightarrow> Inl e
      | Inr (st, ids') \<Rightarrow> Inr (map (to_market wh d) st, ids'))"
proof (induction ws arbitrary: acc ids)
  case Nil
  show ?case by simp
next
  case (Cons w ws)
  show ?case
  proof (cases "py_str (Kod w) \<in> set ids")
    case False
    with Cons show ?thesis by simp
  next
    case True
    show ?thesis
    proof (cases "classify (Kolichestvo w)")
      case (Inl e)
      with True show ?thesis by simp
    next
      case (Inr n)
      have "map (to_market wh d) acc
              @ [\<lparr>sku = py_str (Kod w), warehouseId = wh,
                  items = [\<lparr>count = n, item_type = ''FIT'', updatedAt = d\<rparr>]\<rparr>]
            = map (to_market wh d) (acc @ [\<lparr>offer_id = py_str (Kod w), stock = n\<rparr>])"
        by (simp add: to_market_def)
      with True Inr Cons [of "acc @ [\<lparr>offer_id = py_str (Kod w), stock = n\<rparr>]" "remove1 (py_str (Kod w)) ids"]
      show ?thesis by simp
    qed
  qed
qed

lemma market_create_stocks_seller:
  "market_create_stocks feed ids wh clock t
   = (case seller_create_stocks feed ids of
        Inl e \<Rightarrow> Inl e
      | Inr (st, ids') \<Rightarrow> Inr (map (to_market wh (clock t)) st, ids', Suc t))"
  using market_stocks_loop_seller [of feed wh "clock t" "[]" ids]
  by (simp add: market_create_stocks_def seller_create_stocks_def utcnow_iso_def to_market_def
      split: sum.splits prod.splits)

lemma market_create_stocks_InrD:
  assumes "market_create_stocks feed ids wh clock t = Inr (mst, ids', t')"
  obtains st where "seller_create_stocks feed ids = Inr (st, ids')"
    and "mst = map (to_market wh (clock t)) st" and "t' = Suc t"
  using assms unfolding market_create_stocks_seller
  by (auto split: sum.splits prod.splits)

lemma offer_id_expected: "map offer_id (map expected_stock ws @ map (\<lambda>i. \<lparr>offer_id = i, stock = 0\<rparr>) is) = map code ws @ is"
  by (simp add: expected_stock_def comp_def)

lemma sku_to_market: "map sku (map (to_market wh d) st) = map offer_id st"
  by (simp add: to_market_def comp_def)

text \<open>
  Claim C1. For every feed and every duplicate-free catalog list \<open>C\<close>, the list that
  \<open>create_stocks\<close> returns is: one update per matched record (the first occurrence of
  each code of \<open>C\<close>, in feed order) with its classified count, then one update with count
  0 per identifier of \<open>C\<close> that the feed lacks, in catalog order. Its identifiers are
  those of \<open>C\<close>, each once. Both modules.
\<close>

theorem create_stocks_complete:
  assumes "distinct C"
  shows "(seller_create_stocks feed C = Inr (st, ids') \<longrightarrow>
            st = map expected_stock (matched_records C feed)
                 @ map (\<lambda>i. \<lparr>offer_id = i, stock = 0\<rparr>) (unmatched_ids C feed)
            \<and> (\<forall>w \<in> set (matched_records C feed).
                  classify (Kolichestvo w) = Inr (stock (expected_stock w)))
            \<and> distinct (map offer_id st) \<and> set (map offer_id st) = set C \<and> length st = length C)
       \<and> (market_create_stocks feed C wh clock t = Inr (mst, mids, t') \<longrightarrow>
            mst = map (to_market wh (clock t))
                    (map expected_stock (matched_records C feed)
                     @ map (\<lambda>i. \<lparr>offer_id = i, stock = 0\<rparr>) (unmatched_ids C feed))
            \<and> distinct (map sku mst) \<and> set (map sku mst) = set C \<and> length mst = length C)"
proof -
  let ?xs = "map expected_stock (matched_records C feed)
             @ map (\<lambda>i. \<lparr>offer_id = i, stock = 0\<rparr>) (unmatched_ids C feed)"
  have ids: "map offer_id ?xs = map code (matched_records C feed) @ unmatched_ids C feed"
    by (rule offer_id_expected)
  note R = reconciled_ids [OF assms ids]
  have len: "length ?xs = length C" using R(3) by simp
  have seller: "st = ?xs
      \<and> (\<forall>w \<in> set (matched_records C feed). classify (Kolichestvo w) = Inr (stock (expected_stock w)))
      \<and> distinct (map offer_id st) \<and> set (map offer_id st) = set C \<and> length st = length C"
    if run: "seller_create_stocks feed C = Inr (st, ids')" for st ids'
  proof -
    note S = seller_create_stocks_Inr [OF assms run]
    have "\<forall>w \<in> set (matched_records C feed). classify (Kolichestvo w) = Inr (stock (expected_stock w))"
      using S(3) by (auto simp: expected_stock_def)
    then show ?thesis using S(1) R len by simp
  qed
  have market: "mst = map (to_market wh (clock t)) ?xs
      \<and> distinct (map sku mst) \<and> set (map sku mst) = set C \<and> length mst = length C"
    if run: "market_create_stocks feed C wh clock t = Inr (mst, mids, t')"
  proof -
    from run obtain st where st: "seller_create_stocks feed C = Inr (st, mids)"
      and m: "mst = map (to_market wh (clock t)) st"
      by (rule market_create_stocks_InrD)
    from seller [OF st] have a: "st = ?xs" and d: "distinct (map offer_id st)"
      and s: "set (map offer_id st) = set C" and l: "length st = length C"
      by blast+
    have k: "map sku mst = map offer_id st" unfolding m by (rule sku_to_market)
    have "mst = map (to_market wh (clock t)) ?xs" using m a by (simp only:)
    moreover have "distinct (map sku mst)" unfolding k by (rule d)
    moreover have "set (map sku mst) = set C" unfolding k by (rule s)
    moreover have "length mst = length C" unfolding m using l by simp
    ultimately show ?thesis by blast
  qed
  from seller market show ?thesis by blast
qed

lemma seller_create_stocks_example:
  "seller_create_stocks feed_example [''48852'', ''99999'']
   = Inr ([\<lparr>offer_id = ''48852'', stock = 3\<rparr>, \<lparr>offer_id = ''99999'', stock = 0\<rparr>], [''99999''])"
  by (simp add: seller_create_stocks_def feed_example_def classify_def int_of_str_three)

text \<open>
  The end-to-end scenario of the specification: one record, two catalog identifiers.
\<close>

theorem create_stocks_complete_witness:
  "distinct [''48852'', ''99999'']
   \<and> seller_create_stocks feed_example [''48852'', ''99999'']
       = Inr ([\<lparr>offer_id = ''48852'', stock = 3\<rparr>, \<lparr>offer_id = ''99999'', stock = 0\<rparr>], [''99999''])
   \<and> distinct (map offer_id [\<lparr>offer_id = ''48852'', stock = 3\<rparr>, \<lparr>offer_id = ''99999'', stock = 0\<rparr>])
   \<and> set (map offer_id [\<lparr>offer_id = ''48852'', stock = 3\<rparr>, \<lparr>offer_id = ''99999'', stock = 0\<rparr>])
       = set [''48852'', ''99999'']
   \<and> length [\<lparr>offer_id = ''48852'', stock = 3\<rparr>, \<lparr>offer_id = ''99999'', stock = 0\<rparr>]
       = length [''48852'', ''99999'']
   \<and> market_create_stocks feed_example [''48852'', ''99999''] ''w'' clock_example 0
       = Inr (map (to_market ''w'' ''T0'')
               [\<lparr>offer_id = ''48852'', stock = 3\<rparr>, \<lparr>offer_id = ''99999'', stock = 0\<rparr>],
              [''99999''], Suc 0)
   \<and> set (map sku (map (to_market ''w'' ''T0'')
               [\<lparr>offer_id = ''48852'', stock = 3\<rparr>, \<lparr>offer_id = ''99999'', stock = 0\<rparr>]))
       = set [''48852'', ''99999'']"
proof -
  have h: "distinct [''48852'', ''99999'']" by simp
  have m: "market_create_stocks feed_example [''48852'', ''99999''] ''w'' clock_example 0
       = Inr (map (to_market ''w'' ''T0'')
               [\<lparr>offer_id = ''48852'', stock = 3\<rparr>, \<lparr>offer_id = ''99999'', stock = 0\<rparr>],
              [''99999''], Suc 0)"
    by (simp add: market_create_stocks_seller seller_create_stocks_example)
  from create_stocks_complete [OF h, of feed_example
      "[\<lparr>offer_id = ''48852'', stock = 3\<rparr>, \<lparr>offer_id = ''99999'', stock = 0\<rparr>]" "[''99999'']"
      "''w''" clock_example 0
      "map (to_market ''w'' ''T0'')
         [\<lparr>offer_id = ''48852'', stock = 3\<rparr>, \<lparr>offer_id = ''99999'', stock = 0\<rparr>]"
      "[''99999'']" "Suc 0"]
    seller_create_stocks_example m h
  show ?thesis by blast
qed

lemma market_stocks_timestamp:
  assumes "market_create_stocks feed ids wh clock t = Inr (mst, ids', t')"
  shows "(\<forall>s \<in> set mst. map updatedAt (items s) = [clock t]) \<and> t' = Suc t"
proof -
  from assms obtain st where "mst = map (to_market wh (clock t)) st" and "t' = Suc t"
    by (rule market_create_stocks_InrD)
  then show ?thesis by (auto simp: to_market_def)
qed

text \<open>
  Claim C9, as stated, fails for seller.py, which the claim cites: the stock updates of
  its \<open>create_stocks\<close> have the keys \<open>offer_id\<close> and \<open>stock\<close> and nothing else, so
  they carry no time stamp at all.
\<close>

theorem seller_stock_timestamp_counterexample:
  "seller_create_stocks feed_example [''48852'', ''99999'']
     = Inr ([\<lparr>offer_id = ''48852'', stock = 3\<rparr>, \<lparr>offer_id = ''99999'', stock = 0\<rparr>], [''99999''])
   \<and> map fst (seller_stock_fields \<lparr>offer_id = ''48852'', stock = 3\<rparr>) = [''offer_id'', ''stock'']
   \<and> map fst (seller_stock_fields \<lparr>offer_id = ''99999'', stock = 0\<rparr>) = [''offer_id'', ''stock'']
   \<and> map_of (seller_stock_fields \<lparr>offer_id = ''48852'', stock = 3\<rparr>) ''updatedAt'' = None
   \<and> map_of (seller_stock_fields \<lparr>offer_id = ''99999'', stock = 0\<rparr>) ''updatedAt'' = None"
  using seller_create_stocks_example by (simp add: seller_stock_fields_def)

text \<open>
  Claim C9, amended. In one call of \<open>create_stocks\<close> of market.py the clock is read
  once, before the feed walk, and every stock update returned, for a matched record or
  for a zeroed identifier, carries that one reading as its \<open>updatedAt\<close>. The stock
  updates of seller.py carry no time stamp: their keys are \<open>offer_id\<close> and \<open>stock\<close>.
\<close>

theorem stock_updates_timestamp:
  "(market_create_stocks feed ids wh clock t = Inr (mst, mids, t') \<longrightarrow>
      (\<forall>s \<in> set mst. map updatedAt (items s) = [clock t]) \<and> t' = Suc t)
   \<and> (seller_create_stocks feed ids = Inr (st, sids) \<longrightarrow>
      (\<forall>s \<in> set st. map fst (seller_stock_fields s) = [''offer_id'', ''stock'']
                     \<and> map_of (seller_stock_fields s) ''updatedAt'' = None))"
proof -
  have m: "(\<forall>s \<in> set mst. map updatedAt (items s) = [clock t]) \<and> t' = Suc t"
    if "market_create_stocks feed ids wh clock t = Inr (mst, mids, t')"
    using that by (rule market_stocks_timestamp)
  have s: "\<forall>s \<in> set st. map fst (seller_stock_fields s) = [''offer_id'', ''stock'']
                     \<and> map_of (seller_stock_fields s) ''updatedAt'' = None"
    by (simp add: seller_stock_fields_def)
  from m s show ?thesis by blast
qed

text \<open>
  A matched and a zeroed identifier, on a clock whose later readings differ.
\<close>

theorem stock_updates_timestamp_witness:
  "market_create_stocks feed_example [''48852'', ''99999''] ''w'' clock_example 0
     = Inr ([\<lparr>sku = ''48852'', warehouseId = ''w'',
              items = [\<lparr>count = 3, item_type = ''FIT'', updatedAt = ''T0''\<rparr>]\<rparr>,
             \<lparr>sku = ''99999'', warehouseId = ''w'',
              items = [\<lparr>count = 0, item_type = ''FIT'', updatedAt = ''T0''\<rparr>]\<rparr>],
            [''99999''], Suc 0)
   \<and> map updatedAt (items \<lparr>sku = ''48852'', warehouseId = ''w'',
              items = [\<lparr>count = 3, item_type = ''FIT'', updatedAt = ''T0''\<rparr>]\<rparr>) = [clock_example 0]
   \<and> map updatedAt (items \<lparr>sku = ''99999'', warehouseId = ''w'',
              items = [\<lparr>count = 0, item_type = ''FIT'', updatedAt = ''T0''\<rparr>]\<rparr>) = [clock_example 0]
   \<and> seller_create_stocks feed_example [''48852'', ''99999'']
     = Inr ([\<lparr>offer_id = ''48852'', stock = 3\<rparr>, \<lparr>offer_id = ''99999'', stock = 0\<rparr>], [''99999''])
   \<and> map fst (seller_stock_fields \<lparr>offer_id = ''48852'', stock = 3\<rparr>) = [''offer_id'', ''stock'']"
proof -
  have m: "market_create_stocks feed_example [''48852'', ''99999''] ''w'' clock_example 0
     = Inr ([\<lparr>sku = ''48852'', warehouseId = ''w'',
              items = [\<lparr>count = 3, item_type = ''FIT'', updatedAt = ''T0''\<rparr>]\<rparr>,
             \<lparr>sku = ''99999'', warehouseId = ''w'',
              items = [\<lparr>count = 0, item_type = ''FIT'', updatedAt = ''T0''\<rparr>]\<rparr>],
            [''99999''], Suc 0)"
    by (simp add: market_create_stocks_def utcnow_iso_def feed_example_def classify_def
        int_of_str_three)
  note T = stock_updates_timestamp [of feed_example "[''48852'', ''99999'']" "''w''" clock_example 0
      "[\<lparr>sku = ''48852'', warehouseId = ''w'',
              items = [\<lparr>count = 3, item_type = ''FIT'', updatedAt = ''T0''\<rparr>]\<rparr>,
             \<lparr>sku = ''99999'', warehouseId = ''w'',
              items = [\<lparr>count = 0, item_type = ''FIT'', updatedAt = ''T0''\<rparr>]\<rparr>]"
      "[''99999'']" "Suc 0"
      "[\<lparr>offer_id = ''48852'', stock = 3\<rparr>, \<lparr>offer_id = ''99999'', stock = 0\<rparr>]" "[''99999'']"]
  from T m seller_create_stocks_example show ?thesis by simp
qed

section \<open>Reconciliation: the consumed catalog list\<close>

lemma seller_prices_loop_no_match:
  "\<forall>w \<in> set ws. py_str (Kod w) \<notin> set ids \<Longrightarrow> seller_prices_loop ws acc ids = Inr acc"
  by (induction ws arbitrary: acc) simp_all

lemma unmatched_no_feed_code:
  "\<forall>w \<in> set feed. py_str (Kod w) \<notin> set (unmatched_ids ids feed)"
  by (auto simp: unmatched_ids_def feed_codes_def code_def)

text \<open>
  Claim C10, amended. For a duplicate-free \<open>offer_ids\<close> list, \<open>create_stocks\<close> leaves in
  the caller's list exactly the identifiers whose code no feed record carries; a
  \<open>create_prices\<close> call on that list, as in \<open>main\<close> of seller.py, returns the empty
  list.
\<close>

theorem create_stocks_consumes_offer_ids:
  assumes "distinct ids"
  shows "(seller_create_stocks feed ids = Inr (st, ids') \<longrightarrow>
            ids' = unmatched_ids ids feed \<and> seller_create_prices feed ids' = Inr []
            \<and> seller_main_lists feed ids = Inr (st, []))
       \<and> (market_create_stocks feed ids wh clock t = Inr (mst, mids, t') \<longrightarrow>
            mids = unmatched_ids ids feed)"
proof -
  have p: "seller_create_prices feed (unmatched_ids ids feed) = Inr []"
    unfolding seller_create_prices_def
    by (rule seller_prices_loop_no_match) (rule unmatched_no_feed_code)
  have seller: "ids' = unmatched_ids ids feed \<and> seller_create_prices feed ids' = Inr []
            \<and> seller_main_lists feed ids = Inr (st, [])"
    if run: "seller_create_stocks feed ids = Inr (st, ids')" for st ids'
  proof -
    have i: "ids' = unmatched_ids ids feed" by (rule seller_create_stocks_Inr(2) [OF assms run])
    then show ?thesis using p run by (simp add: seller_main_lists_def)
  qed
  have market: "mids = unmatched_ids ids feed"
    if run: "market_create_stocks feed ids wh clock t = Inr (mst, mids, t')"
  proof -
    from run obtain st where "seller_create_stocks feed ids = Inr (st, mids)"
      by (rule market_create_stocks_InrD)
    from seller [OF this] show ?thesis by simp
  qed
  from seller market show ?thesis by blast
qed

text \<open>
  The end-to-end scenario again: the matched identifier is gone, no price is emitted.
\<close>

theorem create_stocks_consumes_offer_ids_witness:
  "distinct [''48852'', ''99999'']
   \<and> seller_create_stocks feed_example [''48852'', ''99999'']
       = Inr ([\<lparr>offer_id = ''48852'', stock = 3\<rparr>, \<lparr>offer_id = ''99999'', stock = 0\<rparr>], [''99999''])
   \<and> [''99999''] = unmatched_ids [''48852'', ''99999''] feed_example
   \<and> seller_create_prices feed_example [''99999''] = Inr []
   \<and> seller_main_lists feed_example [''48852'', ''99999'']
       = Inr ([\<lparr>offer_id = ''48852'', stock = 3\<rparr>, \<lparr>offer_id = ''99999'', stock = 0\<rparr>], [])"
proof -
  have h: "distinct [''48852'', ''99999'']" by simp
  from create_stocks_consumes_offer_ids [OF h, of feed_example]
    seller_create_stocks_example h
  show ?thesis by (simp del: distinct.simps)
qed

text \<open>
  Claim C10, as stated, fails on a list that holds an identifier twice: one occurrence
  is removed, the other stays though the feed carries its code, and the later
  \<open>create_prices\<close> call emits a price update for it.
\<close>

theorem offer_ids_duplicate_counterexample:
  "seller_create_stocks [watch_a ''3'' ''10.00''] [''a'', ''a'']
     = Inr ([\<lparr>offer_id = ''a'', stock = 3\<rparr>, \<lparr>offer_id = ''a'', stock = 0\<rparr>], [''a''])
   \<and> seller_create_prices [watch_a ''3'' ''10.00''] [''a''] = Inr [seller_price_of ''a'' ''10'']
   \<and> seller_main_lists [watch_a ''3'' ''10.00''] [''a'', ''a'']
     = Inr ([\<lparr>offer_id = ''a'', stock = 3\<rparr>, \<lparr>offer_id = ''a'', stock = 0\<rparr>],
            [seller_price_of ''a'' ''10''])"
proof -
  have s: "seller_create_stocks [watch_a ''3'' ''10.00''] [''a'', ''a'']
     = Inr ([\<lparr>offer_id = ''a'', stock = 3\<rparr>, \<lparr>offer_id = ''a'', stock = 0\<rparr>], [''a''])"
    by (simp add: seller_create_stocks_def watch_a_def classify_def int_of_str_three)
  have p: "seller_create_prices [watch_a ''3'' ''10.00''] [''a''] = Inr [seller_price_of ''a'' ''10'']"
    by (simp add: seller_create_prices_def watch_a_def seller_price_of_def sub_non_digits_def
        split_first_def is_digit_def)
  show ?thesis using s p by (simp add: seller_main_lists_def)
qed

section \<open>Reconciliation: price updates\<close>

lemma seller_prices_loop_ids:
  "seller_prices_loop ws acc ids = Inr ps \<Longrightarrow>
     map price_offer_id ps = map price_offer_id acc @ filter (\<lambda>c. c \<in> set ids) (feed_codes ws)"
proof (induction ws arbitrary: acc)
  case Nil
  then show ?case by (simp add: feed_codes_def)
next
  case (Cons w ws)
  show ?case
  proof (cases "py_str (Kod w) \<in> set ids")
    case False
    with Cons show ?thesis by (simp add: feed_codes_def code_def)
  next
    case True
    with Cons.prems obtain p where p: "price_conversion (Tsena w) = Inr p"
      by (cases "price_conversion (Tsena w)") simp_all
    with Cons.prems True have "seller_prices_loop ws
        (acc @ [\<lparr>auto_action_enabled = ''UNKNOWN'', currency_code = ''RUB'',
                 price_offer_id = py_str (Kod w), old_price = ''0'', price = p\<rparr>]) ids = Inr ps"
      by simp
    from Cons.IH [OF this] True show ?thesis by (simp add: feed_codes_def code_def)
  qed
qed

lemma market_prices_loop_ids:
  "market_prices_loop ws acc ids = Inr ps \<Longrightarrow>
     map price_id ps = map price_id acc @ filter (\<lambda>c. c \<in> set ids) (feed_codes ws)"
proof (induction ws arbitrary: acc)
  case Nil
  then show ?case by (simp add: feed_codes_def)
next
  case (Cons w ws)
  show ?case
  proof (cases "py_str (Kod w) \<in> set ids")
    case False
    with Cons show ?thesis by (simp add: feed_codes_def code_def)
  next
    case True
    with Cons.prems obtain v where v: "market_price_value (Tsena w) = Inr v"
      by (cases "market_price_value (Tsena w)") simp_all
    with Cons.prems True have "market_prices_loop ws
        (acc @ [\<lparr>price_id = py_str (Kod w),
                 price_body = \<lparr>price_value = v, currencyId = ''RUR''\<rparr>\<rparr>]) ids = Inr ps"
      by simp
    from Cons.IH [OF this] True show ?thesis by (simp add: feed_codes_def code_def)
  qed
qed

text \<open>
  Claim C4, amended. The identifiers of the price updates are the codes of the feed
  records whose code is in \<open>C\<close>, in feed order, one per record. Each is in \<open>C\<close> and a
  code of the feed; they are pairwise different when the feed codes are.
\<close>

theorem create_prices_ids:
  "(seller_create_prices feed C = Inr sps \<longrightarrow>
      map price_offer_id sps = filter (\<lambda>c. c \<in> set C) (feed_codes feed)
      \<and> set (map price_offer_id sps) \<subseteq> set C \<inter> set (feed_codes feed)
      \<and> (distinct (feed_codes feed) \<longrightarrow> distinct (map price_offer_id sps)))
   \<and> (market_create_prices feed C = Inr mps \<longrightarrow>
      map price_id mps = filter (\<lambda>c. c \<in> set C) (feed_codes feed)
      \<and> set (map price_id mps) \<subseteq> set C \<inter> set (feed_codes feed)
      \<and> (distinct (feed_codes feed) \<longrightarrow> distinct (map price_id mps)))"
proof -
  have a: "set xs \<subseteq> set C \<inter> set (feed_codes feed) \<and> (distinct (feed_codes feed) \<longrightarrow> distinct xs)"
    if "xs = filter (\<lambda>c. c \<in> set C) (feed_codes feed)" for xs
    using that by auto
  have s: "map price_offer_id sps = filter (\<lambda>c. c \<in> set C) (feed_codes feed)"
    if "seller_create_prices feed C = Inr sps"
    using seller_prices_loop_ids [of feed "[]" C sps] that by (simp add: seller_create_prices_def)
  have m: "map price_id mps = filter (\<lambda>c. c \<in> set C) (feed_codes feed)"
    if "market_create_prices feed C = Inr mps"
    using market_prices_loop_ids [of feed "[]" C mps] that by (simp add: market_create_prices_def)
  from a [OF s] a [OF m] s m show ?thesis by blast
qed

lemma sub_non_digits_10: "sub_non_digits (split_first ''10.00'') = ''10''"
  by (simp add: sub_non_digits_def split_first_def is_digit_def)

lemma sub_non_digits_20: "sub_non_digits (split_first ''20.00'') = ''20''"
  by (simp add: sub_non_digits_def split_first_def is_digit_def)

lemma parse_decimal_10_20: "parse_decimal ''10'' = 10" "parse_decimal ''20'' = 20"
  by (simp_all add: parse_decimal_def digit_val_def)

lemma seller_create_prices_twice:
  "seller_create_prices [watch_a ''3'' ''10.00'', watch_a ''3'' ''20.00''] [''a'']
     = Inr [seller_price_of ''a'' ''10'', seller_price_of ''a'' ''20'']"
  by (simp add: seller_create_prices_def watch_a_def seller_price_of_def
      sub_non_digits_10 sub_non_digits_20)

lemma market_create_prices_twice:
  "market_create_prices [watch_a ''3'' ''10.00'', watch_a ''3'' ''20.00''] [''a'']
     = Inr [market_price_of ''a'' 10, market_price_of ''a'' 20]"
  by (simp add: market_create_prices_def watch_a_def market_price_of_def market_price_value_str
      sub_non_digits_10 sub_non_digits_20 parse_decimal_10_20)

text \<open>
  Claim C4, as stated, fails: \<open>create_prices\<close> removes nothing from \<open>offer_ids\<close>, so two
  feed records of one code give two price updates of that identifier, the second with
  the second record's price.
\<close>

theorem create_prices_duplicate_counterexample:
  "seller_create_prices [watch_a ''3'' ''10.00'', watch_a ''3'' ''20.00''] [''a'']
     = Inr [seller_price_of ''a'' ''10'', seller_price_of ''a'' ''20'']
   \<and> market_create_prices [watch_a ''3'' ''10.00'', watch_a ''3'' ''20.00''] [''a'']
     = Inr [market_price_of ''a'' 10, market_price_of ''a'' 20]
   \<and> \<not> distinct (map price_offer_id [seller_price_of ''a'' ''10'', seller_price_of ''a'' ''20''])
   \<and> \<not> distinct (map price_id [market_price_of ''a'' 10, market_price_of ''a'' 20])"
  using seller_create_prices_twice market_create_prices_twice
  by (simp add: seller_price_of_def market_price_of_def)

text \<open>
  One record of a catalog code: one price update, in each module.
\<close>

theorem create_prices_ids_witness:
  "seller_create_prices [watch_a ''3'' ''10.00''] [''a''] = Inr [seller_price_of ''a'' ''10'']
   \<and> market_create_prices [watch_a ''3'' ''10.00''] [''a''] = Inr [market_price_of ''a'' 10]
   \<and> distinct (feed_codes [watch_a ''3'' ''10.00''])
   \<and> map price_offer_id [seller_price_of ''a'' ''10'']
       = filter (\<lambda>c. c \<in> set [''a'']) (feed_codes [watch_a ''3'' ''10.00''])
   \<and> distinct (map price_offer_id [seller_price_of ''a'' ''10''])
   \<and> map price_id [market_price_of ''a'' 10]
       = filter (\<lambda>c. c \<in> set [''a'']) (feed_codes [watch_a ''3'' ''10.00''])
   \<and> distinct (map price_id [market_price_of ''a'' 10])"
proof -
  have s: "seller_create_prices [watch_a ''3'' ''10.00''] [''a''] = Inr [seller_price_of ''a'' ''10'']"
    by (simp add: seller_create_prices_def watch_a_def seller_price_of_def sub_non_digits_10)
  have m: "market_create_prices [watch_a ''3'' ''10.00''] [''a''] = Inr [market_price_of ''a'' 10]"
    by (simp add: market_create_prices_def watch_a_def market_price_of_def market_price_value_str
        sub_non_digits_10 parse_decimal_10_20)
  have d: "distinct (feed_codes [watch_a ''3'' ''10.00''])" by (simp add: feed_codes_def)
  from create_prices_ids [of "[watch_a ''3'' ''10.00'']" "[''a'']"
      "[seller_price_of ''a'' ''10'']" "[market_price_of ''a'' 10]"] s m d
  show ?thesis by blast
qed

lemma market_prices_loop_fails:
  assumes "w \<in> set ws" and "py_str (Kod w) \<in> set ids" and "market_price_value (Tsena w) = Inl e0"
  shows "\<exists>e. market_prices_loop ws acc ids = Inl e"
  using assms(1)
proof (induction ws arbitrary: acc)
  case Nil
  then show ?case by simp
next
  case (Cons x xs)
  show ?case
  proof (cases "py_str (Kod x) \<in> set ids")
    case False
    with assms(2) have "w \<noteq> x" by auto
    with Cons.prems have "w \<in> set xs" by simp
    from Cons.IH [OF this] False show ?thesis by simp
  next
    case True
    show ?thesis
    proof (cases "market_price_value (Tsena x)")
      case (Inl e)
      with True show ?thesis by simp
    next
      case (Inr v)
      with assms(3) have "w \<noteq> x" by auto
      with Cons.prems have "w \<in> set xs" by simp
      from Cons.IH [OF this] True Inr show ?thesis by simp
    qed
  qed
qed

text \<open>
  Claim C5, as stated, fails for seller.py: \<open>price_conversion\<close> returns the empty text
  and \<open>create_prices\<close> emits a price update that carries it.
\<close>

theorem empty_price_counterexample:
  "sub_non_digits (split_first ''x.5'') = []
   \<and> seller_create_prices [watch_a ''3'' ''x.5''] [''a''] = Inr [seller_price_of ''a'' []]"
  by (simp add: seller_create_prices_def watch_a_def seller_price_of_def sub_non_digits_def
      split_first_def is_digit_def)

text \<open>
  Claim C5, amended. \<open>price_conversion\<close> never raises on a price text: it returns the
  digits left, possibly none. The integer conversion of market.py raises \<open>ValueError\<close>
  exactly when none is left, and nothing else; so \<open>create_prices\<close> of market.py fails
  whenever a record of a catalog code has such a price.
\<close>

theorem empty_price_fails:
  "price_conversion (PStr p) = Inr (sub_non_digits (split_first p))
   \<and> (market_price_value (PStr p) = Inl ValueError \<longleftrightarrow> sub_non_digits (split_first p) = [])
   \<and> (\<forall>e. market_price_value (PStr p) = Inl e \<longrightarrow> e = ValueError)
   \<and> (w \<in> set feed \<and> code w \<in> set C \<and> Tsena w = PStr p \<and> sub_non_digits (split_first p) = []
        \<longrightarrow> (\<exists>e. market_create_prices feed C = Inl e))"
proof -
  have a: "price_conversion (PStr p) = Inr (sub_non_digits (split_first p))" by simp
  have b: "market_price_value (PStr p) = Inl ValueError \<longleftrightarrow> sub_non_digits (split_first p) = []"
    by (simp add: market_price_value_str)
  have c: "\<forall>e. market_price_value (PStr p) = Inl e \<longrightarrow> e = ValueError"
    by (simp add: market_price_value_str)
  have d: "\<exists>e. market_create_prices feed C = Inl e"
    if "w \<in> set feed" "code w \<in> set C" "Tsena w = PStr p" "sub_non_digits (split_first p) = []"
  proof -
    have "market_price_value (Tsena w) = Inl ValueError" using that(3,4) b by simp
    with that(1,2) show ?thesis
      unfolding market_create_prices_def code_def by (rule market_prices_loop_fails)
  qed
  from a b c d show ?thesis by blast
qed

text \<open>
  A record of a catalog code whose price has no digit before its period.
\<close>

theorem empty_price_fails_witness:
  "watch_a ''3'' ''x.5'' \<in> set [watch_a ''3'' ''x.5''] \<and> code (watch_a ''3'' ''x.5'') \<in> set [''a'']
   \<and> Tsena (watch_a ''3'' ''x.5'') = PStr ''x.5'' \<and> sub_non_digits (split_first ''x.5'') = []
   \<and> market_price_value (PStr ''x.5'') = Inl ValueError
   \<and> (\<exists>e. market_create_prices [watch_a ''3'' ''x.5''] [''a''] = Inl e)"
proof -
  have h: "watch_a ''3'' ''x.5'' \<in> set [watch_a ''3'' ''x.5''] \<and> code (watch_a ''3'' ''x.5'') \<in> set [''a'']
      \<and> Tsena (watch_a ''3'' ''x.5'') = PStr ''x.5'' \<and> sub_non_digits (split_first ''x.5'') = []"
    by (simp add: watch_a_def code_def sub_non_digits_def split_first_def is_digit_def)
  from empty_price_fails [of "''x.5''" "watch_a ''3'' ''x.5''" "[watch_a ''3'' ''x.5'']" "[''a'']"] h
  show ?thesis by blast
qed

lemma market_price_value_nonneg: "market_price_value v = Inr n \<Longrightarrow> 0 \<le> n"
proof (cases v)
  case (PStr p)
  assume "market_price_value v = Inr n"
  then show ?thesis unfolding PStr market_price_value_str by (simp split: if_splits)
qed (simp_all add: market_price_value_def)

lemma market_prices_loop_nonneg:
  "market_prices_loop ws acc ids = Inr ps \<Longrightarrow> \<forall>p \<in> set acc. 0 \<le> price_value (price_body p)
     \<Longrightarrow> \<forall>p \<in> set ps. 0 \<le> price_value (price_body p)"
proof (induction ws arbitrary: acc)
  case Nil
  then show ?case by simp
next
  case (Cons w ws)
  show ?case
  proof (cases "py_str (Kod w) \<in> set ids")
    case False
    with Cons show ?thesis by simp
  next
    case True
    with Cons.prems(1) obtain v where v: "market_price_value (Tsena w) = Inr v"
      by (cases "market_price_value (Tsena w)") simp_all
    let ?acc = "acc @ [\<lparr>price_id = py_str (Kod w),
                        price_body = \<lparr>price_value = v, currencyId = ''RUR''\<rparr>\<rparr>]"
    have run: "market_prices_loop ws ?acc ids = Inr ps" using Cons.prems(1) True v by simp
    have "\<forall>p \<in> set ?acc. 0 \<le> price_value (price_body p)"
      using Cons.prems(2) market_price_value_nonneg [OF v] by simp
    from Cons.IH [OF run this] show ?thesis .
  qed
qed

lemma seller_prices_loop_digits:
  "seller_prices_loop ws acc ids = Inr ps \<Longrightarrow> \<forall>p \<in> set acc. \<forall>c \<in> set (price p). is_digit c
     \<Longrightarrow> \<forall>p \<in> set ps. \<forall>c \<in> set (price p). is_digit c"
proof (induction ws arbitrary: acc)
  case Nil
  then show ?case by simp
next
  case (Cons w ws)
  show ?case
  proof (cases "py_str (Kod w) \<in> set ids")
    case False
    with Cons show ?thesis by simp
  next
    case True
    with Cons.prems(1) obtain d where d: "price_conversion (Tsena w) = Inr d"
      by (cases "price_conversion (Tsena w)") simp_all
    then have dig: "\<forall>c \<in> set d. is_digit c"
      by (cases "Tsena w") (auto simp: sub_non_digits_def)
    let ?acc = "acc @ [\<lparr>auto_action_enabled = ''UNKNOWN'', currency_code = ''RUB'',
                 price_offer_id = py_str (Kod w), old_price = ''0'', price = d\<rparr>]"
    have run: "seller_prices_loop ws ?acc ids = Inr ps" using Cons.prems(1) True d by simp
    have "\<forall>p \<in> set ?acc. \<forall>c \<in> set (price p). is_digit c"
      using Cons.prems(2) dig by simp
    from Cons.IH [OF run this] show ?thesis .
  qed
qed

lemma seller_stocks_loop_counts:
  "seller_stocks_loop ws acc ids = Inr (st, ids') \<Longrightarrow>
     \<forall>s \<in> set st. s \<in> set acc
        \<or> (\<exists>w \<in> set ws. code w = offer_id s \<and> classify (Kolichestvo w) = Inr (stock s))"
proof (induction ws arbitrary: acc ids)
  case Nil
  then show ?case by simp
next
  case (Cons w ws)
  show ?case
  proof (cases "py_str (Kod w) \<in> set ids")
    case False
    with Cons.prems have "seller_stocks_loop ws acc ids = Inr (st, ids')" by simp
    from Cons.IH [OF this] show ?thesis by auto
  next
    case True
    with Cons.prems obtain n where n: "classify (Kolichestvo w) = Inr n"
      by (cases "classify (Kolichestvo w)") simp_all
    with Cons.prems True
    have "seller_stocks_loop ws (acc @ [\<lparr>offer_id = py_str (Kod w), stock = n\<rparr>])
            (remove1 (py_str (Kod w)) ids) = Inr (st, ids')"
      by simp
    from Cons.IH [OF this] n show ?thesis by (auto simp: code_def)
  qed
qed

lemma seller_create_stocks_counts:
  assumes "seller_create_stocks feed C = Inr (st, ids')"
  shows "\<forall>s \<in> set st. stock s = 100 \<or> stock s = 0
      \<or> (\<exists>w \<in> set feed. code w = offer_id s \<and> py_int (Kolichestvo w) = Inr (stock s))"
proof
  fix s assume s: "s \<in> set st"
  from assms obtain st0 where run: "seller_stocks_loop feed [] C = Inr (st0, ids')"
    and st: "st = st0 @ map (\<lambda>i. \<lparr>offer_id = i, stock = 0\<rparr>) ids'"
    by (auto simp: seller_create_stocks_def split: sum.splits)
  from s st consider "s \<in> set st0" | "stock s = 0" by auto
  then show "stock s = 100 \<or> stock s = 0
      \<or> (\<exists>w \<in> set feed. code w = offer_id s \<and> py_int (Kolichestvo w) = Inr (stock s))"
  proof cases
    case 1
    with seller_stocks_loop_counts [OF run] obtain w where w: "w \<in> set feed" "code w = offer_id s"
      "classify (Kolichestvo w) = Inr (stock s)" by auto
    from classify_cases [OF w(3)] w(1,2) show ?thesis by auto
  next
    case 2
    then show ?thesis by simp
  qed
qed

lemma negative_reading_emitted:
  assumes "distinct C" and "seller_create_stocks feed C = Inr (st, ids')"
    and "w \<in> set (matched_records C feed)" and "py_int (Kolichestvo w) = Inr n" and "n < 0"
  shows "\<lparr>offer_id = code w, stock = n\<rparr> \<in> set st"
proof -
  have "classify (Kolichestvo w) = Inr n" using assms(4,5) by (simp add: classify_negative)
  then have "expected_stock w = \<lparr>offer_id = code w, stock = n\<rparr>"
    by (simp add: expected_stock_def)
  moreover have "expected_stock w \<in> set st"
    unfolding seller_create_stocks_Inr(1) [OF assms(1,2)] using assms(3) by simp
  ultimately show ?thesis by simp
qed

text \<open>
  Claim C8, as stated, fails for the stock count: the quantity \<open>-3\<close> of a matched
  record is read by \<open>int\<close> and emitted as the count -3.
\<close>

theorem negative_stock_counterexample:
  "seller_create_stocks [watch_a ''-3'' ''10.00''] [''a''] = Inr ([\<lparr>offer_id = ''a'', stock = - 3\<rparr>], [])
   \<and> market_create_stocks [watch_a ''-3'' ''10.00''] [''a''] ''w'' clock_example 0
       = Inr ([\<lparr>sku = ''a'', warehouseId = ''w'',
                items = [\<lparr>count = - 3, item_type = ''FIT'', updatedAt = ''T0''\<rparr>]\<rparr>], [], Suc 0)"
  by (simp add: seller_create_stocks_def market_create_stocks_def utcnow_iso_def watch_a_def
      classify_def int_of_str_minus_three)

text \<open>
  Claim C8, amended. In every reconciliation that returns: a price update of market.py
  has a value that is at least 0; a price update of seller.py carries a text of ASCII
  digits only, which is empty or reads as an integer that is at least 0; a stock count
  is 100, 0, or the integer that \<open>int\<close> reads from the raw quantity of a feed record of
  that code. The classifier gives a negative count exactly when \<open>int\<close> reads the raw
  quantity as that negative integer; so a count is negative only as such a reading, and,
  for a duplicate-free catalog, every matched record whose raw quantity reads as a
  negative integer gets a stock update with that count, in both modules.
\<close>

theorem updates_nonnegative:
  "(market_create_prices feed C = Inr mps \<longrightarrow> (\<forall>p \<in> set mps. 0 \<le> price_value (price_body p)))
   \<and> (seller_create_prices feed C = Inr sps \<longrightarrow>
        (\<forall>p \<in> set sps. (\<forall>c \<in> set (price p). is_digit c)
           \<and> (price p \<noteq> [] \<longrightarrow> int_of_str (price p) = Inr (int (parse_decimal (price p))))))
   \<and> (seller_create_stocks feed C = Inr (st, ids') \<longrightarrow>
        (\<forall>s \<in> set st. stock s = 100 \<or> stock s = 0
           \<or> (\<exists>w \<in> set feed. code w = offer_id s \<and> py_int (Kolichestvo w) = Inr (stock s))))
   \<and> (market_create_stocks feed C wh clock t = Inr (mst, mids, t') \<longrightarrow>
        (\<forall>s \<in> set mst. \<forall>it \<in> set (items s). count it = 100 \<or> count it = 0
           \<or> (\<exists>w \<in> set feed. code w = sku s \<and> py_int (Kolichestvo w) = Inr (count it))))
   \<and> (n < 0 \<longrightarrow> (classify q = Inr n \<longleftrightarrow> py_int q = Inr n))
   \<and> (distinct C \<and> seller_create_stocks feed C = Inr (st, ids')
        \<and> w \<in> set (matched_records C feed) \<and> py_int (Kolichestvo w) = Inr n \<and> n < 0
        \<longrightarrow> \<lparr>offer_id = code w, stock = n\<rparr> \<in> set st)
   \<and> (distinct C \<and> market_create_stocks feed C wh clock t = Inr (mst, mids, t')
        \<and> w \<in> set (matched_records C feed) \<and> py_int (Kolichestvo w) = Inr n \<and> n < 0
        \<longrightarrow> to_market wh (clock t) \<lparr>offer_id = code w, stock = n\<rparr> \<in> set mst)"
proof -
  have a: "\<forall>p \<in> set mps. 0 \<le> price_value (price_body p)" if "market_create_prices feed C = Inr mps"
    using market_prices_loop_nonneg [of feed "[]" C mps] that by (simp add: market_create_prices_def)
  have b: "\<forall>p \<in> set sps. (\<forall>c \<in> set (price p). is_digit c)
           \<and> (price p \<noteq> [] \<longrightarrow> int_of_str (price p) = Inr (int (parse_decimal (price p))))"
    if run: "seller_create_prices feed C = Inr sps"
  proof
    fix p assume "p \<in> set sps"
    with seller_prices_loop_digits [of feed "[]" C sps] run
    have d: "\<forall>c \<in> set (price p). is_digit c" by (simp add: seller_create_prices_def)
    from int_of_str_digits [OF d] d
    show "(\<forall>c \<in> set (price p). is_digit c)
           \<and> (price p \<noteq> [] \<longrightarrow> int_of_str (price p) = Inr (int (parse_decimal (price p))))"
      by simp
  qed
  have c: "\<forall>s \<in> set st. stock s = 100 \<or> stock s = 0
           \<or> (\<exists>w \<in> set feed. code w = offer_id s \<and> py_int (Kolichestvo w) = Inr (stock s))"
    if "seller_create_stocks feed C = Inr (st, ids')" for st ids'
    using that by (rule seller_create_stocks_counts)
  have d: "\<forall>s \<in> set mst. \<forall>it \<in> set (items s). count it = 100 \<or> count it = 0
           \<or> (\<exists>w \<in> set feed. code w = sku s \<and> py_int (Kolichestvo w) = Inr (count it))"
    if run: "market_create_stocks feed C wh clock t = Inr (mst, mids, t')"
  proof -
    from run obtain st where st: "seller_create_stocks feed C = Inr (st, mids)"
      and m: "mst = map (to_market wh (clock t)) st"
      by (rule market_create_stocks_InrD)
    from c [OF st] show ?thesis unfolding m by (auto simp: to_market_def)
  qed
  have e: "n < 0 \<longrightarrow> (classify q = Inr n \<longleftrightarrow> py_int q = Inr n)"
    by (simp add: classify_negative)
  have f: "\<lparr>offer_id = code w, stock = n\<rparr> \<in> set st"
    if "distinct C" "seller_create_stocks feed C = Inr (st, ids')"
      "w \<in> set (matched_records C feed)" "py_int (Kolichestvo w) = Inr n" "n < 0"
    using that by (rule negative_reading_emitted)
  have f': "distinct C \<and> seller_create_stocks feed C = Inr (st, ids')
        \<and> w \<in> set (matched_records C feed) \<and> py_int (Kolichestvo w) = Inr n \<and> n < 0
        \<longrightarrow> \<lparr>offer_id = code w, stock = n\<rparr> \<in> set st"
    using f by (intro impI) (elim conjE)
  have g: "to_market wh (clock t) \<lparr>offer_id = code w, stock = n\<rparr> \<in> set mst"
    if dist: "distinct C" and run: "market_create_stocks feed C wh clock t = Inr (mst, mids, t')"
      and w: "w \<in> set (matched_records C feed)" "py_int (Kolichestvo w) = Inr n" "n < 0"
  proof -
    from run obtain st where st: "seller_create_stocks feed C = Inr (st, mids)"
      and m: "mst = map (to_market wh (clock t)) st"
      by (rule market_create_stocks_InrD)
    from negative_reading_emitted [OF dist st w] show ?thesis unfolding m by (rule imageI [of _ "set st" "to_market wh (clock t)", simplified set_map [symmetric]])
  qed
  have g': "distinct C \<and> market_create_stocks feed C wh clock t = Inr (mst, mids, t')
        \<and> w \<in> set (matched_records C feed) \<and> py_int (Kolichestvo w) = Inr n \<and> n < 0
        \<longrightarrow> to_market wh (clock t) \<lparr>offer_id = code w, stock = n\<rparr> \<in> set mst"
    using g by (intro impI) (elim conjE)
  show ?thesis
    by (intro conjI impI a b c d f' g' e [rule_format] | assumption)+
qed

text \<open>
  One record with quantity -3 and price 10.00, through the four functions.
\<close>

theorem updates_nonnegative_witness:
  "market_create_prices [watch_a ''-3'' ''10.00''] [''a''] = Inr [market_price_of ''a'' 10]
   \<and> seller_create_prices [watch_a ''-3'' ''10.00''] [''a''] = Inr [seller_price_of ''a'' ''10'']
   \<and> seller_create_stocks [watch_a ''-3'' ''10.00''] [''a''] = Inr ([\<lparr>offer_id = ''a'', stock = - 3\<rparr>], [])
   \<and> market_create_stocks [watch_a ''-3'' ''10.00''] [''a''] ''w'' clock_example 0
       = Inr ([to_market ''w'' ''T0'' \<lparr>offer_id = ''a'', stock = - 3\<rparr>], [], Suc 0)
   \<and> distinct [''a''] \<and> (- 3 :: int) < 0
   \<and> watch_a ''-3'' ''10.00'' \<in> set (matched_records [''a''] [watch_a ''-3'' ''10.00''])
   \<and> py_int (Kolichestvo (watch_a ''-3'' ''10.00'')) = Inr (- 3)
   \<and> 0 \<le> price_value (price_body (market_price_of ''a'' 10))
   \<and> price (seller_price_of ''a'' ''10'') \<noteq> []
   \<and> int_of_str (price (seller_price_of ''a'' ''10''))
       = Inr (int (parse_decimal (price (seller_price_of ''a'' ''10''))))
   \<and> classify (PStr ''-3'') = Inr (- 3)
   \<and> \<lparr>offer_id = code (watch_a ''-3'' ''10.00''), stock = - 3\<rparr>
       \<in> set [\<lparr>offer_id = ''a'', stock = - 3\<rparr>]
   \<and> to_market ''w'' (clock_example 0) \<lparr>offer_id = code (watch_a ''-3'' ''10.00''), stock = - 3\<rparr>
       \<in> set [to_market ''w'' ''T0'' \<lparr>offer_id = ''a'', stock = - 3\<rparr>]"
proof -
  have s: "seller_create_prices [watch_a ''-3'' ''10.00''] [''a''] = Inr [seller_price_of ''a'' ''10'']"
    by (simp add: seller_create_prices_def watch_a_def seller_price_of_def sub_non_digits_10)
  have m: "market_create_prices [watch_a ''-3'' ''10.00''] [''a''] = Inr [market_price_of ''a'' 10]"
    by (simp add: market_create_prices_def watch_a_def market_price_of_def market_price_value_str
        sub_non_digits_10 parse_decimal_10_20)
  have st: "seller_create_stocks [watch_a ''-3'' ''10.00''] [''a''] = Inr ([\<lparr>offer_id = ''a'', stock = - 3\<rparr>], [])"
    by (simp add: seller_create_stocks_def watch_a_def classify_def int_of_str_minus_three)
  have ms: "market_create_stocks [watch_a ''-3'' ''10.00''] [''a''] ''w'' clock_example 0
       = Inr ([to_market ''w'' ''T0'' \<lparr>offer_id = ''a'', stock = - 3\<rparr>], [], Suc 0)"
    by (simp add: market_create_stocks_seller st)
  have h: "distinct [''a'']" "(- 3 :: int) < 0" by simp_all
  have w: "watch_a ''-3'' ''10.00'' \<in> set (matched_records [''a''] [watch_a ''-3'' ''10.00''])"
    by (simp add: matched_records_def code_def watch_a_def)
  have r: "py_int (Kolichestvo (watch_a ''-3'' ''10.00'')) = Inr (- 3)"
    by (simp add: watch_a_def int_of_str_minus_three)
  have ne: "price (seller_price_of ''a'' ''10'') \<noteq> []" by (simp add: seller_price_of_def)
  note T = updates_nonnegative [of "[watch_a ''-3'' ''10.00'']" "[''a'']" "[market_price_of ''a'' 10]"
      "[seller_price_of ''a'' ''10'']" "[\<lparr>offer_id = ''a'', stock = - 3\<rparr>]" "[]" "''w''" clock_example 0
      "[to_market ''w'' ''T0'' \<lparr>offer_id = ''a'', stock = - 3\<rparr>]" "[]" "Suc 0" "- 3" "PStr ''-3''"
      "watch_a ''-3'' ''10.00''"]
  from T m have a: "0 \<le> price_value (price_body (market_price_of ''a'' 10))" by simp
  from T s ne have b: "int_of_str (price (seller_price_of ''a'' ''10''))
       = Inr (int (parse_decimal (price (seller_price_of ''a'' ''10''))))" by simp
  from T h have "classify (PStr ''-3'') = Inr (- 3) \<longleftrightarrow> py_int (PStr ''-3'') = Inr (- 3)" by blast
  then have c: "classify (PStr ''-3'') = Inr (- 3)" by (simp add: int_of_str_minus_three)
  from T h st w r have d: "\<lparr>offer_id = code (watch_a ''-3'' ''10.00''), stock = - 3\<rparr>
       \<in> set [\<lparr>offer_id = ''a'', stock = - 3\<rparr>]" by blast
  from T h ms w r have e: "to_market ''w'' (clock_example 0)
         \<lparr>offer_id = code (watch_a ''-3'' ''10.00''), stock = - 3\<rparr>
       \<in> set [to_market ''w'' ''T0'' \<lparr>offer_id = ''a'', stock = - 3\<rparr>]" by blast
  from s m st ms h w r a ne b c d e show ?thesis by (intro conjI)
qed

end
